theory Spec2Isabelle
  imports Main "HOL-Library.AList" "HOL-Library.Multiset"
begin

section \<open>Python values used by \<open>extract_longest_mRNA.py\<close>\<close>

text \<open>
  A Python \<open>dict\<close> keeps its keys in insertion order: assigning to a key that is present
  replaces the value in place, assigning to a new key appends it. This is an association
  list with \<open>map_of\<close> as lookup and \<open>AList.update\<close> as assignment. Python integers are
  unbounded, hence \<open>int\<close>. Text is modelled as ASCII: a \<open>string\<close> is the decoded text
  after the universal-newline translation of a file opened in text mode.
\<close>

type_synonym ('k, 'v) dict = "('k \<times> 'v) list"

datatype error = ValueError | KeyError | IndexError | IOError

text \<open>
  The three messages the script writes to \<open>sys.stderr\<close>; the text of the caught
  exception, which the third one carries, is left out.
\<close>

datatype diag = Warn_no_mrna_info string | Warn_not_found string | Error_io

definition NL :: char where
  "NL = CHR 0x0A"

definition TAB :: char where
  "TAB = CHR 0x09"

fun diag_text :: "diag \<Rightarrow> string" where
  "diag_text (Warn_no_mrna_info i) = ''Warning: '' @ i @ '' has no mRNA info!'' @ [NL]"
| "diag_text (Warn_not_found i) = ''Warning: '' @ i @ '' not found in mRNA info'' @ [NL]"
| "diag_text Error_io = ''Error: '' @ [NL]"

subsection \<open>\<open>str.startswith\<close>, \<open>str.strip\<close>, \<open>str.split\<close>\<close>

definition startswith :: "string \<Rightarrow> string \<Rightarrow> bool" where
  "startswith p s = (take (length p) s = p)"

text \<open>The ASCII characters for which \<open>str.isspace\<close> holds: 0x09-0x0D, 0x1C-0x20.\<close>

definition is_space :: "char \<Rightarrow> bool" where
  "is_space c = (let n = (of_char c :: nat) in (9 \<le> n \<and> n \<le> 13) \<or> (28 \<le> n \<and> n \<le> 32))"

definition strip :: "string \<Rightarrow> string" where
  "strip s = rev (dropWhile is_space (rev (dropWhile is_space s)))"

text \<open>\<open>s.split("\t")\<close>: never empty, one more field than there are tabs.\<close>

fun split_tab :: "string \<Rightarrow> string list" where
  "split_tab [] = [[]]"
| "split_tab (c # cs) =
     (if c = TAB then [] # split_tab cs
      else (case split_tab cs of f # fs \<Rightarrow> (c # f) # fs | [] \<Rightarrow> [[c]]))"

subsection \<open>\<open>int(str)\<close>\<close>

text \<open>
  \<open>int\<close> on an ASCII string: surrounding C whitespace (0x09-0x0D, 0x20) is dropped, one
  sign is allowed, then decimal digits, where single underscores may stand between
  digits. Anything else raises \<open>ValueError\<close>, which is \<open>None\<close> here. So does a string with
  more digits than the interpreter's limit for the conversion of strings to integers,
  4300 unless the interpreter is started with another value, which the script does not
  do; leading zeros count as digits, the sign, the underscores and the whitespace do
  not.
\<close>

definition is_c_space :: "char \<Rightarrow> bool" where
  "is_c_space c = (let n = (of_char c :: nat) in (9 \<le> n \<and> n \<le> 13) \<or> n = 32)"

definition digit_val :: "char \<Rightarrow> nat option" where
  "digit_val c =
     (let n = (of_char c :: nat) in if 48 \<le> n \<and> n \<le> 57 then Some (n - 48) else None)"

fun digits_value :: "nat \<Rightarrow> string \<Rightarrow> nat option" where
  "digits_value acc [] = Some acc"
| "digits_value acc (c # cs) =
     (if c = CHR ''_'' then
        (case cs of
           [] \<Rightarrow> None
         | d # ds \<Rightarrow>
             (case digit_val d of None \<Rightarrow> None | Some v \<Rightarrow> digits_value (acc * 10 + v) ds))
      else
        (case digit_val c of None \<Rightarrow> None | Some v \<Rightarrow> digits_value (acc * 10 + v) cs))"

definition max_str_digits :: nat where
  "max_str_digits = 4300"

definition unsigned_value :: "string \<Rightarrow> nat option" where
  "unsigned_value s =
     (if max_str_digits < length (filter (\<lambda>c. c \<noteq> CHR ''_'') s) then None
      else
        (case s of
           [] \<Rightarrow> None
         | d # ds \<Rightarrow> (case digit_val d of None \<Rightarrow> None | Some v \<Rightarrow> digits_value v ds)))"

definition py_int :: "string \<Rightarrow> int option" where
  "py_int s =
     (case rev (dropWhile is_c_space (rev (dropWhile is_c_space s))) of
        [] \<Rightarrow> None
      | c # cs \<Rightarrow>
          if c = CHR ''-'' then map_option (\<lambda>n. - int n) (unsigned_value cs)
          else if c = CHR ''+'' then map_option int (unsigned_value cs)
          else map_option int (unsigned_value (c # cs)))"

subsection \<open>The two regular expressions\<close>

text \<open>
  The script uses only whether \<open>re.findall\<close> found something and, if so, its first
  element, which is the leftmost match. Both are given by the functions below, with
  \<open>None\<close> for the empty list.

  \<open>Parent=([^;]+)\<close> at a fixed position: the literal, then the longest non-empty run of
  characters other than \<open>;\<close>.
\<close>

definition not_semi :: "char \<Rightarrow> bool" where
  "not_semi c = (c \<noteq> CHR '';'')"

definition parent_at :: "string \<Rightarrow> string option" where
  "parent_at s =
     (if startswith ''Parent='' s \<and> takeWhile not_semi (drop 7 s) \<noteq> []
      then Some (takeWhile not_semi (drop 7 s)) else None)"

text \<open>\<open>re.findall(r'Parent=([^;]+)', s)\<close>: the leftmost position where it matches.\<close>

fun findall_parent :: "string \<Rightarrow> string option" where
  "findall_parent [] = None"
| "findall_parent (c # cs) =
     (case parent_at (c # cs) of Some g \<Rightarrow> Some g | None \<Rightarrow> findall_parent cs)"

text \<open>
  \<open>.*Parent=([^;]+)\<close>: the star is greedy, so the match of \<open>Parent=\<close> is the rightmost one
  that the star can reach; \<open>.\<close> does not match a newline.
\<close>

fun last_parent :: "string \<Rightarrow> string option" where
  "last_parent [] = None"
| "last_parent (c # cs) =
     (case (if c = NL then None else last_parent cs) of
        Some g \<Rightarrow> Some g
      | None \<Rightarrow> parent_at (c # cs))"

text \<open>
  \<open>ID=([^;]+);.*Parent=([^;]+)\<close> at a fixed position: the first group is the whole run
  up to the next \<open>;\<close>, which must be there.
\<close>

definition id_parent_at :: "string \<Rightarrow> (string \<times> string) option" where
  "id_parent_at s =
     (if startswith ''ID='' s \<and> takeWhile not_semi (drop 3 s) \<noteq> [] then
        (case dropWhile not_semi (drop 3 s) of
           [] \<Rightarrow> None
         | semi # rest \<Rightarrow>
             (case last_parent rest of
                None \<Rightarrow> None
              | Some g \<Rightarrow> Some (takeWhile not_semi (drop 3 s), g)))
      else None)"

text \<open>\<open>re.findall(r'ID=([^;]+);.*Parent=([^;]+)', s)\<close>: the leftmost match.\<close>

fun findall_id_parent :: "string \<Rightarrow> (string \<times> string) option" where
  "findall_id_parent [] = None"
| "findall_id_parent (c # cs) =
     (case id_parent_at (c # cs) of Some p \<Rightarrow> Some p | None \<Rightarrow> findall_id_parent cs)"

subsection \<open>Iterating over a text file\<close>

text \<open>\<open>for line in con\<close>: each line keeps its newline; the last one may have none.\<close>

fun file_lines :: "string \<Rightarrow> string list" where
  "file_lines [] = []"
| "file_lines (c # cs) =
     (if c = NL then [c] # file_lines cs
      else (case file_lines cs of [] \<Rightarrow> [[c]] | l # ls \<Rightarrow> (c # l) # ls))"

section \<open>\<open>Maxlen._readgff\<close>\<close>

record scan_state =
  gene_mrna_len :: "(string, (string, int) dict) dict"
  mrna_info :: "(string, string) dict"
  rna_proid :: "(string, string) dict"
  mrna_gene :: "(string, string) dict"
  stderr :: "diag list"

definition init_state :: scan_state where
  "init_state =
     \<lparr>gene_mrna_len = [], mrna_info = [], rna_proid = [], mrna_gene = [], stderr = []\<rparr>"

text \<open>
  The body of the \<open>for\<close> loop, lines 48-90. A missing dictionary key is \<open>KeyError\<close>, a
  failing \<open>int\<close> is \<open>ValueError\<close>; both leave the loop.
\<close>

definition readgff_line :: "scan_state \<Rightarrow> string \<Rightarrow> error + scan_state" where
  "readgff_line st line =
     (if startswith ''#'' line \<or> strip line = [] then Inr st
      else
        let lines = split_tab (strip line) in
        if length lines < 9 then Inr st
        else if lines ! 2 = ''mRNA'' then
          (case findall_id_parent (lines ! 8) of
             None \<Rightarrow> Inr st
           | Some (mrna_id, gene_id) \<Rightarrow>
               let mg = AList.update mrna_id gene_id (mrna_gene st);
                   gml = (if map_of (gene_mrna_len st) gene_id = None
                          then AList.update gene_id [] (gene_mrna_len st)
                          else gene_mrna_len st)
               in (case map_of gml gene_id of
                     None \<Rightarrow> Inl KeyError
                   | Some d \<Rightarrow>
                       Inr (st\<lparr>mrna_gene := mg,
                               gene_mrna_len :=
                                 AList.update gene_id (AList.update mrna_id 0 d) gml,
                               mrna_info := AList.update mrna_id line (mrna_info st)\<rparr>)))
        else if lines ! 2 = ''CDS'' then
          (case findall_parent (lines ! 8) of
             None \<Rightarrow> Inr st
           | Some mrna_id \<Rightarrow>
               let st1 = st\<lparr>rna_proid := AList.update mrna_id mrna_id (rna_proid st)\<rparr> in
               (case map_of (mrna_info st1) mrna_id of
                  None \<Rightarrow> Inr (st1\<lparr>stderr := stderr st1 @ [Warn_no_mrna_info mrna_id]\<rparr>)
                | Some buf \<Rightarrow>
                    let st2 = st1\<lparr>mrna_info :=
                                    AList.update mrna_id (buf @ line) (mrna_info st1)\<rparr> in
                    (case map_of (mrna_gene st2) mrna_id of
                       None \<Rightarrow> Inl KeyError
                     | Some gene_id \<Rightarrow>
                         (case py_int (lines ! 4) of
                            None \<Rightarrow> Inl ValueError
                          | Some e \<Rightarrow>
                              (case py_int (lines ! 3) of
                                 None \<Rightarrow> Inl ValueError
                               | Some s \<Rightarrow>
                                   let cdslen = e - s + 1 in
                                   (case map_of (gene_mrna_len st2) gene_id of
                                      None \<Rightarrow> Inl KeyError
                                    | Some d \<Rightarrow>
                                        (case map_of d mrna_id of
                                           None \<Rightarrow> Inl KeyError
                                         | Some n \<Rightarrow>
                                             Inr (st2\<lparr>gene_mrna_len :=
                                               AList.update gene_id
                                                 (AList.update mrna_id (n + cdslen) d)
                                                 (gene_mrna_len st2)\<rparr>))))))))
        else Inr st)"

text \<open>
  The loop over the lines. An exception ends it; what was written to \<open>stderr\<close> before
  stays written and is returned with the error.
\<close>

fun readgff_loop :: "scan_state \<Rightarrow> string list \<Rightarrow> (error \<times> diag list) + scan_state" where
  "readgff_loop st [] = Inr st"
| "readgff_loop st (line # rest) =
     (case readgff_line st line of
        Inl e \<Rightarrow> Inl (e, stderr st)
      | Inr st' \<Rightarrow> readgff_loop st' rest)"

section \<open>\<open>Maxlen._getmax\<close>\<close>

text \<open>
  \<open>sorted(items, key=lambda x: x[1], reverse=True)\<close> is a stable sort by descending
  length: entries of equal length keep their order. \<open>newidlen[0]\<close> on an empty list is
  \<open>IndexError\<close>.
\<close>

definition sorted_desc :: "(string \<times> int) list \<Rightarrow> (string \<times> int) list" where
  "sorted_desc items = sort_key (\<lambda>x. - snd x) items"

fun getmax :: "(string, (string, int) dict) dict \<Rightarrow> error + string list" where
  "getmax [] = Inr []"
| "getmax ((geneid, d) # rest) =
     (case sorted_desc d of
        [] \<Rightarrow> Inl IndexError
      | x # _ \<Rightarrow> (case getmax rest of Inl e \<Rightarrow> Inl e | Inr mrnaids \<Rightarrow> Inr (fst x # mrnaids)))"

section \<open>\<open>Maxlen.main\<close>\<close>

record maxlen =
  gff :: string
  outgff :: string

text \<open>
  The file system (path to text), the paths that cannot be opened for writing, and what
  has been written to \<open>stderr\<close>. Opening a file is the only operation on files that can
  fail here: a path that is not in the file system cannot be read, a read-only path
  cannot be written.
\<close>

record world =
  files :: "(string, string) dict"
  readonly :: "string list"
  err :: "diag list"

datatype outcome = Completed | Exit nat | Uncaught error

text \<open>\<open>_readgff\<close>: open \<open>self.gff\<close>, run the loop, return the three dictionaries.\<close>

definition readgff ::
  "maxlen \<Rightarrow> world \<Rightarrow>
   (error \<times> diag list) +
   (((string, (string, int) dict) dict \<times> (string, string) dict \<times> (string, string) dict)
      \<times> diag list)" where
  "readgff self w =
     (case map_of (files w) (gff self) of
        None \<Rightarrow> Inl (IOError, [])
      | Some content \<Rightarrow>
          (case readgff_loop init_state (file_lines content) of
             Inl e \<Rightarrow> Inl e
           | Inr st \<Rightarrow> Inr ((gene_mrna_len st, mrna_info st, rna_proid st), stderr st)))"

text \<open>Lines 102-106: one \<open>out.write\<close> per selected id that has a buffer.\<close>

fun write_blocks :: "(string, string) dict \<Rightarrow> string list \<Rightarrow> string list \<times> diag list" where
  "write_blocks m_i [] = ([], [])"
| "write_blocks m_i (mrna_id # rest) =
     (case map_of m_i mrna_id of
        Some buf \<Rightarrow> (buf # fst (write_blocks m_i rest), snd (write_blocks m_i rest))
      | None \<Rightarrow> (fst (write_blocks m_i rest), Warn_not_found mrna_id # snd (write_blocks m_i rest)))"

text \<open>
  \<open>main\<close>: the output file is opened (and so truncated) first. Only \<open>IOError\<close> is caught
  and turned into exit status 1; any other exception ends the run uncaught.
\<close>

definition main :: "maxlen \<Rightarrow> world \<Rightarrow> outcome \<times> world" where
  "main self w =
     (if outgff self \<in> set (readonly w) then (Exit 1, w\<lparr>err := err w @ [Error_io]\<rparr>)
      else
        let w1 = w\<lparr>files := AList.update (outgff self) [] (files w)\<rparr> in
        (case readgff self w1 of
           Inl (e, log) \<Rightarrow>
             if e = IOError then (Exit 1, w1\<lparr>err := err w1 @ log @ [Error_io]\<rparr>)
             else (Uncaught e, w1\<lparr>err := err w1 @ log\<rparr>)
         | Inr ((g_m_l, m_i, r_p), log) \<Rightarrow>
             (case getmax g_m_l of
                Inl e \<Rightarrow> (Uncaught e, w1\<lparr>err := err w1 @ log\<rparr>)
              | Inr maxmrnaidlen \<Rightarrow>
                  (Completed,
                   w1\<lparr>files :=
                        AList.update (outgff self)
                          (concat (fst (write_blocks m_i maxmrnaidlen))) (files w1),
                      err := err w1 @ log @ snd (write_blocks m_i maxmrnaidlen)\<rparr>))))"

section \<open>Reading the scanner's loop line by line\<close>

text \<open>
  Which lines the loop body treats as an \<open>mRNA\<close> record (with its \<open>ID\<close> and \<open>Parent\<close>) and
  which as a \<open>CDS\<close> record (with its \<open>Parent\<close>), and the length \<open>end - start + 1\<close> of a
  \<open>CDS\<close> line whose columns 4 and 5 are integers. These collect the tests of the loop
  body; the lemmas after them say what the body does in each case.
\<close>

definition mrna_rec :: "string \<Rightarrow> (string \<times> string) option" where
  "mrna_rec line =
     (if startswith ''#'' line \<or> strip line = [] then None
      else if length (split_tab (strip line)) < 9 then None
      else if split_tab (strip line) ! 2 = ''mRNA''
        then findall_id_parent (split_tab (strip line) ! 8)
      else None)"

definition cds_rec :: "string \<Rightarrow> string option" where
  "cds_rec line =
     (if startswith ''#'' line \<or> strip line = [] then None
      else if length (split_tab (strip line)) < 9 then None
      else if split_tab (strip line) ! 2 = ''mRNA'' then None
      else if split_tab (strip line) ! 2 = ''CDS''
        then findall_parent (split_tab (strip line) ! 8)
      else None)"

definition cds_len :: "string \<Rightarrow> int option" where
  "cds_len line =
     (case py_int (split_tab (strip line) ! 4) of
        None \<Rightarrow> None
      | Some e \<Rightarrow>
          (case py_int (split_tab (strip line) ! 3) of
             None \<Rightarrow> None
           | Some s \<Rightarrow> Some (e - s + 1)))"

text \<open>
  The \<open>mRNA\<close> records of a list of lines, as pairs of \<open>ID\<close> and \<open>Parent\<close> in file order; the
  elements of a list in the order of their first occurrence; the ids registered under a
  gene, in file order.
\<close>

definition mrnas :: "string list \<Rightarrow> (string \<times> string) list" where
  "mrnas ls = List.map_filter mrna_rec ls"

definition first_occ :: "'a list \<Rightarrow> 'a list" where
  "first_occ xs = rev (remdups (rev xs))"

definition transcripts :: "string list \<Rightarrow> string \<Rightarrow> string list" where
  "transcripts ls g = map fst (filter (\<lambda>p. snd p = g) (mrnas ls))"

text \<open>
  What holds of the dictionaries after the loop has read the lines \<open>ls\<close>, whatever they
  are: the genes are the parents of the \<open>mRNA\<close> records in the order of their first
  record, each gene's dictionary has as keys the ids registered under it in the order of
  their first registration, the buffers exist for exactly the registered ids, and an id
  maps to the parent of its latest record.
\<close>

definition scan_inv :: "string list \<Rightarrow> scan_state \<Rightarrow> bool" where
  "scan_inv ls st \<longleftrightarrow>
     map fst (gene_mrna_len st) = first_occ (map snd (mrnas ls)) \<and>
     (\<forall>g d. map_of (gene_mrna_len st) g = Some d \<longrightarrow> map fst d = first_occ (transcripts ls g)) \<and>
     fst ` set (mrna_info st) = fst ` set (mrnas ls) \<and>
     map_of (mrna_gene st) = map_of (rev (mrnas ls))"

text \<open>
  The tie-break in the spec's words: among the entries of maximal length, the one that
  comes first in the dictionary.
\<close>

definition first_longest :: "(string \<times> int) list \<Rightarrow> string option" where
  "first_longest d =
     (case filter (\<lambda>p. \<forall>q\<in>set d. snd q \<le> snd p) d of [] \<Rightarrow> None | p # _ \<Rightarrow> Some (fst p))"

text \<open>\<open>gene_mrna_len[g][t]\<close>, where it exists.\<close>

definition glen :: "scan_state \<Rightarrow> string \<Rightarrow> string \<Rightarrow> int option" where
  "glen st g t = (case map_of (gene_mrna_len st) g of None \<Rightarrow> None | Some d \<Rightarrow> map_of d t)"

text \<open>
  The spec's transcript: its summed coding length is the sum of \<open>end - start + 1\<close> over the
  \<open>CDS\<close> records whose \<open>Parent\<close> is the transcript's id (a line whose coordinates are not
  integers counts 0 here; the scanner does not survive one), and its feature block is its
  \<open>mRNA\<close> line followed by its \<open>CDS\<close> lines in file order.
\<close>

definition cds_lines :: "string list \<Rightarrow> string \<Rightarrow> string list" where
  "cds_lines ls t = filter (\<lambda>l. cds_rec l = Some t) ls"

definition cds_total :: "string list \<Rightarrow> string \<Rightarrow> int" where
  "cds_total ls t =
     sum_list (map (\<lambda>l. case cds_len l of None \<Rightarrow> 0 | Some n \<Rightarrow> n) (cds_lines ls t))"

definition has_id :: "string \<Rightarrow> string \<Rightarrow> bool" where
  "has_id t l = (map_option fst (mrna_rec l) = Some t)"

definition mrna_line :: "string list \<Rightarrow> string \<Rightarrow> string" where
  "mrna_line ls t = (case filter (has_id t) ls of [] \<Rightarrow> [] | l # _ \<Rightarrow> l)"

definition block_of :: "string list \<Rightarrow> string \<Rightarrow> string" where
  "block_of ls t = mrna_line ls t @ concat (cds_lines ls t)"

text \<open>
  A well-formed file: no \<open>mRNA\<close> record comes after a \<open>CDS\<close> record that names its id, the
  coordinates of the \<open>CDS\<close> records are integers that \<open>int\<close> accepts (so of at most 4300
  digits), and the ids of the \<open>mRNA\<close> records are pairwise distinct. A \<open>CDS\<close> record whose
  parent is never declared is allowed.
\<close>

fun mrna_first :: "string list \<Rightarrow> bool" where
  "mrna_first [] = True"
| "mrna_first (l # ls) =
     ((case cds_rec l of None \<Rightarrow> True | Some p \<Rightarrow> p \<notin> fst ` set (mrnas ls)) \<and> mrna_first ls)"

definition cds_coordinates_ok :: "string list \<Rightarrow> bool" where
  "cds_coordinates_ok ls = (\<forall>l\<in>set ls. cds_rec l \<noteq> None \<longrightarrow> cds_len l \<noteq> None)"

definition wf_gff :: "string list \<Rightarrow> bool" where
  "wf_gff ls \<longleftrightarrow> distinct (map fst (mrnas ls)) \<and> cds_coordinates_ok ls \<and> mrna_first ls"








section \<open>Example annotation files\<close>

text \<open>
  A nine-column line of the given feature type, coordinates and attributes, some lines
  built with it, and a world with the input at \<open>in.gff\<close> and an older output at \<open>out.gff\<close>.
\<close>

definition example_line :: "string \<Rightarrow> string \<Rightarrow> string \<Rightarrow> string \<Rightarrow> string" where
  "example_line type start end attrs =
     ''chr1'' @ [TAB] @ ''src'' @ [TAB] @ type @ [TAB] @ start @ [TAB] @ end @ [TAB] @
     ''.'' @ [TAB] @ ''+'' @ [TAB] @ ''.'' @ [TAB] @ attrs @ [NL]"

definition ex_m1 :: string where
  "ex_m1 = example_line ''mRNA'' ''1'' ''900'' ''ID=t1;Parent=g1''"

definition ex_m2 :: string where
  "ex_m2 = example_line ''mRNA'' ''1'' ''900'' ''ID=t2;Parent=g1''"

definition ex_m3 :: string where
  "ex_m3 = example_line ''mRNA'' ''1000'' ''1900'' ''ID=t3;Parent=g2''"

definition ex_c1 :: string where
  "ex_c1 = example_line ''CDS'' ''1'' ''300'' ''ID=c1;Parent=t1''"

definition ex_c2 :: string where
  "ex_c2 = example_line ''CDS'' ''1'' ''150'' ''ID=c2;Parent=t2''"

definition ex_c2b :: string where
  "ex_c2b = example_line ''CDS'' ''151'' ''300'' ''ID=c3;Parent=t2''"


definition ex_orphan :: string where
  "ex_orphan = example_line ''CDS'' ''1'' ''300'' ''ID=c5;Parent=t9''"

definition ex_bad_cds :: string where
  "ex_bad_cds = example_line ''CDS'' ''x'' ''300'' ''ID=c6;Parent=t1''"

definition ex_bad_mrna :: string where
  "ex_bad_mrna = example_line ''mRNA'' ''x'' ''y'' ''ID=t1;Parent=g1''"

definition ex_m1_again :: string where
  "ex_m1_again = example_line ''mRNA'' ''2000'' ''2900'' ''ID=t1;Parent=g2''"

definition ex_self :: maxlen where
  "ex_self = \<lparr>gff = ''in.gff'', outgff = ''out.gff''\<rparr>"

definition ex_world :: "string \<Rightarrow> world" where
  "ex_world src =
     \<lparr>files = [(''in.gff'', src), (''out.gff'', ''old'')], readonly = [], err = []\<rparr>"


section \<open>The digit limit of \<open>int\<close>\<close>

text \<open>A decimal string of more than 4300 digits is refused, whatever its sign.\<close>

lemma py_int_digit_limit:
  assumes "max_str_digits < n"
  shows "py_int (replicate n (CHR ''1'')) = None"
    and "py_int (CHR ''-'' # replicate n (CHR ''0'')) = None"
proof -
  have s1: "\<not> is_c_space (CHR ''1'')" and s0: "\<not> is_c_space (CHR ''0'')"
    and sm: "\<not> is_c_space (CHR ''-'')"
    by (simp_all add: is_c_space_def)
  from assms obtain m where n: "n = Suc m" by (cases n) (simp_all add: max_str_digits_def)
  have d1: "dropWhile is_c_space (replicate n (CHR ''1'')) = replicate n (CHR ''1'')"
    using s1 by (simp add: n)
  have u1: "unsigned_value (replicate n (CHR ''1'')) = None"
    using assms by (simp add: unsigned_value_def)
  show "py_int (replicate n (CHR ''1'')) = None"
    using u1 by (simp add: py_int_def d1) (simp add: n)
  have u0: "unsigned_value (replicate n (CHR ''0'')) = None"
    using assms by (simp add: unsigned_value_def)
  have "rev (dropWhile is_c_space (rev (CHR ''-'' # replicate n (CHR ''0'')))) =
      CHR ''-'' # replicate n (CHR ''0'')"
    using s0 by (simp add: n dropWhile_append3 replicate_append_same [symmetric] del: replicate_Suc)
  then show "py_int (CHR ''-'' # replicate n (CHR ''0'')) = None"
    using u0 sm by (simp add: py_int_def)
qed

section \<open>What the loop body does\<close>

lemma mrna_rec_not_cds: "mrna_rec l = Some p \<Longrightarrow> cds_rec l = None"
  by (simp add: mrna_rec_def cds_rec_def split: if_splits)

lemma readgff_line_skip:
  "mrna_rec l = None \<Longrightarrow> cds_rec l = None \<Longrightarrow> readgff_line st l = Inr st"
  by (auto simp: mrna_rec_def cds_rec_def readgff_line_def Let_def split: if_splits)

lemma readgff_line_mrna:
  assumes "mrna_rec l = Some (t, g)"
  shows "readgff_line st l =
     Inr (st\<lparr>mrna_gene := AList.update t g (mrna_gene st),
             gene_mrna_len :=
               AList.update g
                 (AList.update t 0 (case map_of (gene_mrna_len st) g of None \<Rightarrow> [] | Some d \<Rightarrow> d))
                 (gene_mrna_len st),
             mrna_info := AList.update t l (mrna_info st)\<rparr>)"
  using assms
  by (auto simp: mrna_rec_def readgff_line_def Let_def update_conv' split: if_splits)

lemma readgff_line_cds_unregistered:
  assumes "cds_rec l = Some p" and "map_of (mrna_info st) p = None"
  shows "readgff_line st l =
     Inr (st\<lparr>rna_proid := AList.update p p (rna_proid st),
             stderr := stderr st @ [Warn_no_mrna_info p]\<rparr>)"
  using assms
  by (auto simp: cds_rec_def readgff_line_def Let_def split: if_splits)

lemma readgff_line_cds_registered:
  assumes "cds_rec l = Some p" and "map_of (mrna_info st) p = Some buf"
  shows "readgff_line st l =
     (case map_of (mrna_gene st) p of
        None \<Rightarrow> Inl KeyError
      | Some g \<Rightarrow>
          (case cds_len l of
             None \<Rightarrow> Inl ValueError
           | Some k \<Rightarrow>
               (case map_of (gene_mrna_len st) g of
                  None \<Rightarrow> Inl KeyError
                | Some d \<Rightarrow>
                    (case map_of d p of
                       None \<Rightarrow> Inl KeyError
                     | Some n \<Rightarrow>
                         Inr (st\<lparr>rna_proid := AList.update p p (rna_proid st),
                                 mrna_info := AList.update p (buf @ l) (mrna_info st),
                                 gene_mrna_len :=
                                   AList.update g (AList.update p (n + k) d)
                                     (gene_mrna_len st)\<rparr>)))))"
  using assms
  by (auto simp: cds_rec_def cds_len_def readgff_line_def Let_def split: if_splits option.splits)

lemma readgff_loop_append:
  "readgff_loop st (xs @ ys) =
     (case readgff_loop st xs of Inl e \<Rightarrow> Inl e | Inr st' \<Rightarrow> readgff_loop st' ys)"
  by (induction xs arbitrary: st) (auto split: sum.splits)

lemma first_occ_snoc:
  "first_occ (xs @ [x]) = (if x \<in> set xs then first_occ xs else first_occ xs @ [x])"
  by (simp add: first_occ_def)

lemma first_occ_Nil [simp]: "first_occ [] = []"
  by (simp add: first_occ_def)

lemma set_first_occ [simp]: "set (first_occ xs) = set xs"
  by (simp add: first_occ_def)

lemma distinct_first_occ [simp]: "distinct (first_occ xs)"
  by (simp add: first_occ_def)

lemma mrnas_Nil [simp]: "mrnas [] = []"
  by (simp add: mrnas_def map_filter_simps)

lemma mrnas_snoc:
  "mrnas (ls @ [l]) = mrnas ls @ (case mrna_rec l of None \<Rightarrow> [] | Some p \<Rightarrow> [p])"
  by (simp add: mrnas_def map_filter_def split: option.splits)

lemma transcripts_snoc:
  "transcripts (ls @ [l]) g =
     transcripts ls g @ (case mrna_rec l of None \<Rightarrow> [] | Some p \<Rightarrow> if snd p = g then [fst p] else [])"
  by (simp add: transcripts_def mrnas_snoc split: option.splits)

lemma map_of_key_iff: "(map_of al k \<noteq> None) = (k \<in> set (map fst al))"
  by (simp add: map_of_eq_None_iff)

lemma scan_inv_init: "scan_inv [] init_state"
  by (simp add: scan_inv_def init_state_def transcripts_def)

lemma scan_inv_lookup:
  assumes "scan_inv ls st" and "map_of (mrna_info st) p = Some buf"
  shows "\<exists>g d n. map_of (mrna_gene st) p = Some g \<and> map_of (gene_mrna_len st) g = Some d \<and>
           map_of d p = Some n \<and> (p, g) \<in> set (mrnas ls)"
proof -
  from assms have "p \<in> fst ` set (mrnas ls)"
    unfolding scan_inv_def by (metis map_of_eq_None_iff option.distinct(1))
  then have "p \<in> fst ` set (rev (mrnas ls))" by simp
  then obtain g where g: "map_of (rev (mrnas ls)) p = Some g"
    by (meson map_of_eq_None_iff not_Some_eq)
  then have pg: "(p, g) \<in> set (mrnas ls)"
    using map_of_SomeD by fastforce
  from g assms(1) have mg: "map_of (mrna_gene st) p = Some g"
    by (simp add: scan_inv_def)
  from pg have "g \<in> set (map fst (gene_mrna_len st))"
    using assms(1) by (force simp: scan_inv_def)
  then obtain d where d: "map_of (gene_mrna_len st) g = Some d"
    by (metis map_of_key_iff not_Some_eq)
  with assms(1) have "map fst d = first_occ (transcripts ls g)"
    by (simp add: scan_inv_def)
  moreover from pg have "p \<in> set (transcripts ls g)"
    by (force simp: transcripts_def)
  ultimately have "p \<in> set (map fst d)" by simp
  then obtain n where "map_of d p = Some n"
    by (metis map_of_key_iff not_Some_eq)
  with mg d pg show ?thesis by blast
qed

lemma update_keys_present:
  "k \<in> set (map fst al) \<Longrightarrow> map fst (AList.update k v al) = map fst al"
  by (simp add: update_keys)

lemma scan_inv_step:
  assumes inv: "scan_inv ls st" and step: "readgff_line st l = Inr st'"
  shows "scan_inv (ls @ [l]) st'"
proof (cases "mrna_rec l")
  case None
  note nomrna = None
  then have same: "mrnas (ls @ [l]) = mrnas ls" "\<And>g. transcripts (ls @ [l]) g = transcripts ls g"
    by (simp_all add: mrnas_snoc transcripts_snoc)
  show ?thesis
  proof (cases "cds_rec l")
    case None
    with nomrna step have "st' = st" by (simp add: readgff_line_skip)
    with inv same show ?thesis by (simp add: scan_inv_def)
  next
    case (Some p)
    show ?thesis
    proof (cases "map_of (mrna_info st) p")
      case None
      with \<open>cds_rec l = Some p\<close> step have "st' = st\<lparr>rna_proid := AList.update p p (rna_proid st),
             stderr := stderr st @ [Warn_no_mrna_info p]\<rparr>"
        by (simp add: readgff_line_cds_unregistered)
      with inv same show ?thesis
        by (simp add: scan_inv_def)
    next
      case (Some buf)
      from scan_inv_lookup [OF inv Some] obtain g d n where
        look: "map_of (mrna_gene st) p = Some g" "map_of (gene_mrna_len st) g = Some d"
          "map_of d p = Some n" by blast
      from step \<open>cds_rec l = Some p\<close> Some look obtain k where
        st': "st' = st\<lparr>rna_proid := AList.update p p (rna_proid st),
                       mrna_info := AList.update p (buf @ l) (mrna_info st),
                       gene_mrna_len := AList.update g (AList.update p (n + k) d) (gene_mrna_len st)\<rparr>"
        by (auto simp: readgff_line_cds_registered split: option.splits)
      have kg: "g \<in> set (map fst (gene_mrna_len st))" using look(2) by (metis map_of_key_iff option.distinct(1))
      have kd: "p \<in> set (map fst d)" using look(3) by (metis map_of_key_iff option.distinct(1))
      have kp: "p \<in> fst ` set (mrna_info st)" using Some by (metis map_of_eq_None_iff option.distinct(1))
      have 1: "map fst (gene_mrna_len st') = first_occ (map snd (mrnas (ls @ [l])))"
        using inv kg by (simp add: st' same scan_inv_def update_keys_present)
      have i2: "\<And>g d. map_of (gene_mrna_len st) g = Some d \<Longrightarrow> map fst d = first_occ (transcripts ls g)"
        using inv unfolding scan_inv_def by blast
      have 2: "\<forall>g' d'. map_of (gene_mrna_len st') g' = Some d' \<longrightarrow> map fst d' = first_occ (transcripts (ls @ [l]) g')"
      proof (intro allI impI)
        fix g' d' assume a: "map_of (gene_mrna_len st') g' = Some d'"
        show "map fst d' = first_occ (transcripts (ls @ [l]) g')"
        proof (cases "g' = g")
          case True
          with a have "d' = AList.update p (n + k) d" by (simp add: st' update_conv')
          then have "map fst d' = map fst d" using kd by (simp add: update_keys_present)
          with i2 [OF look(2)] True show ?thesis by (simp add: same)
        next
          case False
          with a have "map_of (gene_mrna_len st) g' = Some d'" by (simp add: st' update_conv')
          from i2 [OF this] show ?thesis by (simp add: same)
        qed
      qed
      have 3: "fst ` set (mrna_info st') = fst ` set (mrnas (ls @ [l]))"
        using inv kp by (auto simp: st' same scan_inv_def dom_update)
      have 4: "map_of (mrna_gene st') = map_of (rev (mrnas (ls @ [l])))"
        using inv by (simp add: st' same scan_inv_def)
      from 1 2 3 4 show ?thesis unfolding scan_inv_def by blast
    qed
  qed
next
  case (Some tg)
  obtain t g where tg: "tg = (t, g)" by (cases tg)
  with Some have rec: "mrna_rec l = Some (t, g)" by simp
  define d0 where "d0 = (case map_of (gene_mrna_len st) g of None \<Rightarrow> [] | Some d \<Rightarrow> d)"
  from step rec have st': "st' = st\<lparr>mrna_gene := AList.update t g (mrna_gene st),
             gene_mrna_len := AList.update g (AList.update t 0 d0) (gene_mrna_len st),
             mrna_info := AList.update t l (mrna_info st)\<rparr>"
    by (simp add: readgff_line_mrna d0_def)
  have m: "mrnas (ls @ [l]) = mrnas ls @ [(t, g)]" by (simp add: mrnas_snoc rec)
  have tr: "\<And>g'. transcripts (ls @ [l]) g' = transcripts ls g' @ (if g' = g then [t] else [])"
    by (auto simp add: transcripts_snoc rec)
  have d0: "map fst d0 = first_occ (transcripts ls g)"
  proof (cases "map_of (gene_mrna_len st) g")
    case None
    then have "g \<notin> set (map fst (gene_mrna_len st))" by (metis map_of_key_iff)
    with inv have "g \<notin> snd ` set (mrnas ls)" by (simp add: scan_inv_def)
    then have "transcripts ls g = []" by (force simp: transcripts_def filter_empty_conv)
    with None show ?thesis by (simp add: d0_def)
  next
    case (Some d)
    with inv show ?thesis by (simp add: d0_def scan_inv_def)
  qed
  have 1: "map fst (gene_mrna_len st') = first_occ (map snd (mrnas (ls @ [l])))"
    using inv by (simp add: st' m scan_inv_def update_keys first_occ_snoc)
  have i2: "\<And>g d. map_of (gene_mrna_len st) g = Some d \<Longrightarrow> map fst d = first_occ (transcripts ls g)"
    using inv unfolding scan_inv_def by blast
  have 2: "\<forall>g' d'. map_of (gene_mrna_len st') g' = Some d' \<longrightarrow> map fst d' = first_occ (transcripts (ls @ [l]) g')"
  proof (intro allI impI)
    fix g' d' assume a: "map_of (gene_mrna_len st') g' = Some d'"
    show "map fst d' = first_occ (transcripts (ls @ [l]) g')"
    proof (cases "g' = g")
      case True
      with a have "d' = AList.update t 0 d0" by (simp add: st' update_conv')
      with d0 True show ?thesis by (simp add: tr update_keys first_occ_snoc)
    next
      case False
      with a have "map_of (gene_mrna_len st) g' = Some d'" by (simp add: st' update_conv')
      from i2 [OF this] False show ?thesis by (simp add: tr)
    qed
  qed
  have 3: "fst ` set (mrna_info st') = fst ` set (mrnas (ls @ [l]))"
    using inv by (auto simp: st' m scan_inv_def dom_update)
  have 4: "map_of (mrna_gene st') = map_of (rev (mrnas (ls @ [l])))"
    using inv by (auto simp add: st' m scan_inv_def update_conv')
  from 1 2 3 4 show ?thesis unfolding scan_inv_def by blast
qed

lemma scan_inv_loop:
  "readgff_loop init_state ls = Inr st \<Longrightarrow> scan_inv ls st"
proof (induction ls arbitrary: st rule: rev_induct)
  case Nil
  then show ?case by (simp add: scan_inv_init)
next
  case (snoc l ls)
  then show ?case
    by (auto simp: readgff_loop_append split: sum.splits intro: scan_inv_step)
qed

section \<open>What the selector returns\<close>

lemma sorted_desc_Cons:
  "sorted_desc (x # xs) = insort_key (\<lambda>x. - snd x) x (sorted_desc xs)"
  by (simp add: sorted_desc_def)

lemma sorted_desc_head:
  "d \<noteq> [] \<Longrightarrow>
     \<exists>pre t n post rest. d = pre @ (t, n) # post \<and> (\<forall>p\<in>set pre. snd p < n) \<and>
       (\<forall>p\<in>set post. snd p \<le> n) \<and> sorted_desc d = (t, n) # rest"
proof (induction d)
  case Nil
  then show ?case by simp
next
  case (Cons x xs)
  obtain t0 n0 where x: "x = (t0, n0)" by (cases x)
  show ?case
  proof (cases "xs = []")
    case True
    then have "x # xs = [] @ (t0, n0) # []" "sorted_desc (x # xs) = (t0, n0) # []"
      by (simp_all add: x sorted_desc_def)
    then show ?thesis by (metis empty_iff list.set(1))
  next
    case False
    from Cons.IH [OF False] obtain pre t n post rest where
      d: "xs = pre @ (t, n) # post" and pre: "\<forall>p\<in>set pre. snd p < n"
      and post: "\<forall>p\<in>set post. snd p \<le> n" and s: "sorted_desc xs = (t, n) # rest"
      by blast
    show ?thesis
    proof (cases "n \<le> n0")
      case True
      then have "sorted_desc (x # xs) = (t0, n0) # (t, n) # rest"
        by (simp add: sorted_desc_Cons s x)
      moreover have "\<forall>p\<in>set xs. snd p \<le> n0"
        using True pre post d by fastforce
      moreover have "x # xs = [] @ (t0, n0) # xs" by (simp add: x)
      ultimately show ?thesis by (metis empty_iff list.set(1))
    next
      case False
      then have "sorted_desc (x # xs) = (t, n) # insort_key (\<lambda>x. - snd x) x rest"
        by (simp add: sorted_desc_Cons s x)
      moreover have "x # xs = (x # pre) @ (t, n) # post" by (simp add: d)
      moreover have "\<forall>p\<in>set (x # pre). snd p < n" using False pre by (simp add: x)
      ultimately show ?thesis using post by blast
    qed
  qed
qed

lemma first_longest_decomp:
  assumes "d = pre @ (t, n) # post" and "\<forall>p\<in>set pre. snd p < n" and "\<forall>p\<in>set post. snd p \<le> n"
  shows "first_longest d = Some t"
proof -
  have le: "\<forall>q\<in>set d. snd q \<le> n" using assms by fastforce
  have "filter (\<lambda>p. \<forall>q\<in>set d. snd q \<le> snd p) pre = []"
    using assms by (fastforce simp: filter_empty_conv)
  then have "filter (\<lambda>p. \<forall>q\<in>set d. snd q \<le> snd p) d =
      (t, n) # filter (\<lambda>p. \<forall>q\<in>set d. snd q \<le> snd p) post"
    using le by (simp add: assms(1))
  then show ?thesis by (simp add: first_longest_def)
qed

lemma sorted_desc_first_longest:
  "d \<noteq> [] \<Longrightarrow> \<exists>x rest. sorted_desc d = x # rest \<and> first_longest d = Some (fst x)"
  using sorted_desc_head [of d] first_longest_decomp by fastforce

lemma getmax_first_longest:
  "\<forall>gd\<in>set genelen. snd gd \<noteq> [] \<Longrightarrow>
     \<exists>ids. getmax genelen = Inr ids \<and> map Some ids = map (\<lambda>gd. first_longest (snd gd)) genelen"
proof (induction genelen)
  case Nil
  then show ?case by simp
next
  case (Cons gd genelen)
  obtain g d where gd: "gd = (g, d)" by (cases gd)
  with Cons.prems have "d \<noteq> []" by simp
  from sorted_desc_first_longest [OF this] obtain x rest where
    x: "sorted_desc d = x # rest" "first_longest d = Some (fst x)" by blast
  from Cons obtain ids where "getmax genelen = Inr ids"
    "map Some ids = map (\<lambda>gd. first_longest (snd gd)) genelen" by auto
  with x show ?case by (simp add: gd)
qed

lemma scan_inv_nonempty:
  assumes "scan_inv ls st" and "gd \<in> set (gene_mrna_len st)"
  shows "snd gd \<noteq> []"
proof -
  obtain g d where gd: "gd = (g, d)" by (cases gd)
  from assms(1) have dist: "distinct (map fst (gene_mrna_len st))"
    by (simp add: scan_inv_def)
  with assms(2) gd have m: "map_of (gene_mrna_len st) g = Some d" by simp
  with assms(1) have k: "map fst d = first_occ (transcripts ls g)"
    unfolding scan_inv_def by blast
  from assms gd have "g \<in> set (first_occ (map snd (mrnas ls)))"
    unfolding scan_inv_def by (metis fst_conv image_eqI set_map)
  then have "g \<in> snd ` set (mrnas ls)" by simp
  then have "transcripts ls g \<noteq> []"
    by (force simp: transcripts_def filter_empty_conv)
  then have "first_occ (transcripts ls g) \<noteq> []"
    by (metis set_first_occ set_empty)
  with k gd show ?thesis by auto
qed

section \<open>Scanner, selector and writer together\<close>

lemma first_longest_in_keys:
  "first_longest d = Some t \<Longrightarrow> t \<in> set (map fst d)"
proof -
  assume a: "first_longest d = Some t"
  then obtain p ps where f: "filter (\<lambda>p. \<forall>q\<in>set d. snd q \<le> snd p) d = p # ps" and t: "t = fst p"
    by (auto simp: first_longest_def split: list.splits)
  from f have "p \<in> set (filter (\<lambda>p. \<forall>q\<in>set d. snd q \<le> snd p) d)" by simp
  then have "p \<in> set d" by simp
  with t show ?thesis by simp
qed

lemma scan_inv_keys_registered:
  assumes inv: "scan_inv ls st" and gd: "gd \<in> set (gene_mrna_len st)" and t: "t \<in> set (map fst (snd gd))"
  shows "t \<in> fst ` set (mrna_info st)"
proof -
  obtain g d where e: "gd = (g, d)" by (cases gd)
  from inv have "distinct (map fst (gene_mrna_len st))" by (simp add: scan_inv_def)
  with gd e have "map_of (gene_mrna_len st) g = Some d" by simp
  with inv have "map fst d = first_occ (transcripts ls g)" unfolding scan_inv_def by blast
  with t e have "t \<in> set (transcripts ls g)" by simp
  then have "t \<in> fst ` set (mrnas ls)" by (auto simp: transcripts_def)
  with inv show ?thesis by (simp add: scan_inv_def)
qed

lemma write_blocks_all_found:
  "\<forall>i\<in>set ids. map_of m_i i \<noteq> None \<Longrightarrow>
     write_blocks m_i ids = (map (\<lambda>i. the (map_of m_i i)) ids, [])"
  by (induction ids) auto

lemma getmax_selected:
  assumes "getmax genelen = Inr ids" and "\<forall>gd\<in>set genelen. snd gd \<noteq> []"
  shows "map Some ids = map (\<lambda>gd. first_longest (snd gd)) genelen"
  using getmax_first_longest [OF assms(2)] assms(1) by auto

lemma map_Some_eq_nth:
  assumes "map Some ids = map f xs" and "i \<in> set ids"
  shows "\<exists>x\<in>set xs. f x = Some i"
proof -
  from assms(2) have "Some i \<in> set (map Some ids)" by simp
  with assms(1) have "Some i \<in> set (map f xs)" by simp
  then show ?thesis by auto
qed

lemma scan_inv_selected_registered:
  assumes inv: "scan_inv ls st" and g: "getmax (gene_mrna_len st) = Inr ids" and i: "i \<in> set ids"
  shows "map_of (mrna_info st) i \<noteq> None"
proof -
  have ne: "\<forall>gd\<in>set (gene_mrna_len st). snd gd \<noteq> []"
    using inv scan_inv_nonempty by blast
  from getmax_selected [OF g ne] i obtain gd where
    gd: "gd \<in> set (gene_mrna_len st)" "first_longest (snd gd) = Some i"
    using map_Some_eq_nth by fastforce
  from first_longest_in_keys [OF gd(2)] scan_inv_keys_registered [OF inv gd(1)]
  have "i \<in> fst ` set (mrna_info st)" by blast
  then show ?thesis by (simp add: map_of_eq_None_iff)
qed

lemma readgff_InrD:
  assumes "readgff self w = Inr ((g_m_l, m_i, r_p), log)"
  shows "\<exists>text st. map_of (files w) (gff self) = Some text \<and>
           readgff_loop init_state (file_lines text) = Inr st \<and>
           g_m_l = gene_mrna_len st \<and> m_i = mrna_info st \<and> r_p = rna_proid st \<and> log = stderr st"
  using assms by (auto simp: readgff_def split: option.splits sum.splits)

lemma readgff_line_error:
  assumes inv: "scan_inv ls st" and err: "readgff_line st l = Inl e"
  shows "e = ValueError"
proof (cases "mrna_rec l")
  case None
  show ?thesis
  proof (cases "cds_rec l")
    case None
    with \<open>mrna_rec l = None\<close> err show ?thesis by (simp add: readgff_line_skip)
  next
    case (Some p)
    show ?thesis
    proof (cases "map_of (mrna_info st) p")
      case None
      with Some err show ?thesis by (simp add: readgff_line_cds_unregistered)
    next
      case (Some buf)
      from scan_inv_lookup [OF inv Some] obtain g d n where
        "map_of (mrna_gene st) p = Some g" "map_of (gene_mrna_len st) g = Some d"
        "map_of d p = Some n" by blast
      with err \<open>cds_rec l = Some p\<close> Some show ?thesis
        by (auto simp: readgff_line_cds_registered split: option.splits)
    qed
  qed
next
  case (Some tg)
  then obtain t g where "mrna_rec l = Some (t, g)" by (cases tg) simp
  with err show ?thesis by (simp add: readgff_line_mrna)
qed

lemma readgff_loop_error:
  "readgff_loop init_state ls = Inl (e, log) \<Longrightarrow> e = ValueError"
proof (induction ls arbitrary: e log rule: rev_induct)
  case Nil
  then show ?case by simp
next
  case (snoc l ls)
  show ?case
  proof (cases "readgff_loop init_state ls")
    case (Inl a)
    with snoc.prems have "a = (e, log)" by (simp add: readgff_loop_append)
    with Inl snoc.IH show ?thesis by simp
  next
    case (Inr st)
    with snoc.prems have "readgff_line st l = Inl e"
      by (auto simp: readgff_loop_append split: sum.splits)
    with scan_inv_loop [OF Inr] show ?thesis by (rule readgff_line_error)
  qed
qed

lemma readgff_readable:
  assumes "map_of (files w) (gff self) = Some text" and "gff self \<noteq> outgff self"
  shows "readgff self (w\<lparr>files := AList.update (outgff self) [] (files w)\<rparr>) =
           (case readgff_loop init_state (file_lines text) of
              Inl e \<Rightarrow> Inl e
            | Inr st \<Rightarrow> Inr ((gene_mrna_len st, mrna_info st, rna_proid st), stderr st))"
  using assms by (simp add: readgff_def update_conv')

lemma main_failure:
  assumes "outgff self \<notin> set (readonly w)" and "map_of (files w) (gff self) = Some text"
    and "gff self \<noteq> outgff self" and "readgff_loop init_state (file_lines text) = Inl (e, log)"
  shows "main self w =
           (Uncaught ValueError,
            w\<lparr>files := AList.update (outgff self) [] (files w), err := err w @ log\<rparr>)"
proof -
  from assms(4) have "e = ValueError" by (rule readgff_loop_error)
  with assms show ?thesis
    by (simp add: main_def Let_def readgff_readable)
qed

lemma main_success:
  assumes "outgff self \<notin> set (readonly w)" and "map_of (files w) (gff self) = Some text"
    and "gff self \<noteq> outgff self" and "readgff_loop init_state (file_lines text) = Inr st"
  shows "\<exists>ids. getmax (gene_mrna_len st) = Inr ids \<and>
           map Some ids = map (\<lambda>gd. first_longest (snd gd)) (gene_mrna_len st) \<and>
           (\<forall>i\<in>set ids. map_of (mrna_info st) i \<noteq> None) \<and>
           main self w =
             (Completed,
              w\<lparr>files := AList.update (outgff self)
                          (concat (map (\<lambda>i. the (map_of (mrna_info st) i)) ids)) (files w),
                err := err w @ stderr st\<rparr>)"
proof -
  have inv: "scan_inv (file_lines text) st" using assms(4) by (rule scan_inv_loop)
  then have ne: "\<forall>gd\<in>set (gene_mrna_len st). snd gd \<noteq> []"
    using scan_inv_nonempty by blast
  from getmax_first_longest [OF ne] obtain ids where
    ids: "getmax (gene_mrna_len st) = Inr ids"
      "map Some ids = map (\<lambda>gd. first_longest (snd gd)) (gene_mrna_len st)" by blast
  have found: "\<forall>i\<in>set ids. map_of (mrna_info st) i \<noteq> None"
    using scan_inv_selected_registered [OF inv ids(1)] by blast
  have "main self w =
             (Completed,
              w\<lparr>files := AList.update (outgff self)
                          (concat (map (\<lambda>i. the (map_of (mrna_info st) i)) ids)) (files w),
                err := err w @ stderr st\<rparr>)"
    using assms ids(1)
    by (simp add: main_def Let_def readgff_readable write_blocks_all_found [OF found])
  with ids found show ?thesis by blast
qed

section \<open>One transcript through the rest of the file\<close>

lemma has_id_iff: "has_id t l \<longleftrightarrow> (\<exists>g. mrna_rec l = Some (t, g))"
  by (cases "mrna_rec l") (auto simp: has_id_def)

lemma glen_mrna:
  "glen (st\<lparr>mrna_gene := mg,
            gene_mrna_len :=
              AList.update g
                (AList.update t 0 (case map_of (gene_mrna_len st) g of None \<Rightarrow> [] | Some d \<Rightarrow> d))
                (gene_mrna_len st),
            mrna_info := mi\<rparr>) g' t' =
     (if g' = g \<and> t' = t then Some 0 else glen st g' t')"
  by (auto simp: glen_def update_conv' split: option.splits)

lemma glen_cds:
  assumes "map_of (gene_mrna_len st) g = Some d"
  shows "glen (st\<lparr>rna_proid := rp, mrna_info := mi,
            gene_mrna_len := AList.update g (AList.update p v d) (gene_mrna_len st)\<rparr>) g' t' =
     (if g' = g \<and> t' = p then Some v else glen st g' t')"
  using assms by (auto simp: glen_def update_conv' split: option.splits)

lemma readgff_line_tracks:
  assumes step: "readgff_line st l = Inr st'"
    and nor: "\<not> has_id t l"
    and b: "map_of (mrna_info st) t = Some b"
    and g: "map_of (mrna_gene st) t = Some g"
  shows "map_of (mrna_info st') t = Some (b @ concat (cds_lines [l] t)) \<and>
         map_of (mrna_gene st') t = Some g \<and>
         (\<forall>n. glen st g t = Some n \<longrightarrow> glen st' g t = Some (n + cds_total [l] t)) \<and>
         (\<forall>g0. g0 \<noteq> g \<longrightarrow> glen st' g0 t = glen st g0 t)"
proof (cases "mrna_rec l")
  case None
  note nomrna = None
  show ?thesis
  proof (cases "cds_rec l")
    case None
    with nomrna step have "st' = st" by (simp add: readgff_line_skip)
    with None b g show ?thesis by (simp add: cds_lines_def cds_total_def)
  next
    case (Some p)
    show ?thesis
    proof (cases "map_of (mrna_info st) p")
      case None
      with Some step have st': "st' = st\<lparr>rna_proid := AList.update p p (rna_proid st),
             stderr := stderr st @ [Warn_no_mrna_info p]\<rparr>"
        by (simp add: readgff_line_cds_unregistered)
      from None b have "p \<noteq> t" by auto
      with Some b g show ?thesis by (simp add: st' cds_lines_def cds_total_def glen_def)
    next
      case (Some buf)
      from step \<open>cds_rec l = Some p\<close> Some obtain gp k d n where
        look: "map_of (mrna_gene st) p = Some gp" "cds_len l = Some k"
          "map_of (gene_mrna_len st) gp = Some d" "map_of d p = Some n"
        and st': "st' = st\<lparr>rna_proid := AList.update p p (rna_proid st),
                       mrna_info := AList.update p (buf @ l) (mrna_info st),
                       gene_mrna_len := AList.update gp (AList.update p (n + k) d) (gene_mrna_len st)\<rparr>"
        by (auto simp: readgff_line_cds_registered split: option.splits)
      have gl: "\<And>g' t'. glen st' g' t' = (if g' = gp \<and> t' = p then Some (n + k) else glen st g' t')"
        unfolding st' using look(3) by (rule glen_cds)
      show ?thesis
      proof (cases "p = t")
        case True
        with look(1) g have "gp = g" by simp
        moreover have "glen st g t = Some n" using look(3,4) True \<open>gp = g\<close> by (simp add: glen_def)
        moreover have "cds_lines [l] t = [l]" "cds_total [l] t = k"
          using \<open>cds_rec l = Some p\<close> True look(2) by (simp_all add: cds_lines_def cds_total_def)
        moreover have "map_of (mrna_info st') t = Some (b @ l)"
          using True Some b by (simp add: st' update_conv')
        moreover have "map_of (mrna_gene st') t = Some g" using g by (simp add: st')
        ultimately show ?thesis using True by (simp add: gl)
      next
        case False
        then have "cds_lines [l] t = []" "cds_total [l] t = 0"
          using \<open>cds_rec l = Some p\<close> by (simp_all add: cds_lines_def cds_total_def)
        moreover have "map_of (mrna_info st') t = Some b"
          using False b by (simp add: st' update_conv')
        moreover have "map_of (mrna_gene st') t = Some g" using g by (simp add: st')
        ultimately show ?thesis using False by (simp add: gl)
      qed
    qed
  qed
next
  case (Some tg)
  obtain t2 g2 where tg: "tg = (t2, g2)" by (cases tg)
  with Some have rec: "mrna_rec l = Some (t2, g2)" by simp
  with nor have ne: "t2 \<noteq> t" by (auto simp: has_id_iff)
  from step rec have st': "st' = st\<lparr>mrna_gene := AList.update t2 g2 (mrna_gene st),
             gene_mrna_len := AList.update g2
                 (AList.update t2 0 (case map_of (gene_mrna_len st) g2 of None \<Rightarrow> [] | Some d \<Rightarrow> d))
                 (gene_mrna_len st),
             mrna_info := AList.update t2 l (mrna_info st)\<rparr>"
    by (simp add: readgff_line_mrna)
  have gl: "\<And>g' t'. glen st' g' t' = (if g' = g2 \<and> t' = t2 then Some 0 else glen st g' t')"
    unfolding st' by (rule glen_mrna)
  have "cds_lines [l] t = []" "cds_total [l] t = 0"
    using mrna_rec_not_cds [OF rec] by (simp_all add: cds_lines_def cds_total_def)
  moreover have "map_of (mrna_info st') t = Some b"
    using ne b by (simp add: st' update_conv')
  moreover have "map_of (mrna_gene st') t = Some g" using ne g by (simp add: st' update_conv')
  ultimately show ?thesis using ne by (simp add: gl)
qed

lemma cds_lines_Cons: "cds_lines (l # ls) t = cds_lines [l] t @ cds_lines ls t"
  by (simp add: cds_lines_def)

lemma cds_total_Cons: "cds_total (l # ls) t = cds_total [l] t + cds_total ls t"
  by (simp add: cds_total_def cds_lines_def)

lemma readgff_loop_tracks:
  assumes "readgff_loop st rest = Inr st'"
    and "\<forall>l\<in>set rest. \<not> has_id t l"
    and "map_of (mrna_info st) t = Some b"
    and "map_of (mrna_gene st) t = Some g"
    and "glen st g t = Some n"
  shows "map_of (mrna_info st') t = Some (b @ concat (cds_lines rest t)) \<and>
         map_of (mrna_gene st') t = Some g \<and>
         glen st' g t = Some (n + cds_total rest t) \<and>
         (\<forall>g0. g0 \<noteq> g \<longrightarrow> glen st' g0 t = glen st g0 t)"
  using assms
proof (induction rest arbitrary: st b n)
  case Nil
  then show ?case by (simp add: cds_lines_def cds_total_def)
next
  case (Cons l rest)
  from Cons.prems(1) obtain st1 where
    s1: "readgff_line st l = Inr st1" and r: "readgff_loop st1 rest = Inr st'"
    by (auto split: sum.splits)
  from Cons.prems(2) have nl: "\<not> has_id t l" and nr: "\<forall>l\<in>set rest. \<not> has_id t l" by simp_all
  from readgff_line_tracks [OF s1 nl Cons.prems(3) Cons.prems(4)] Cons.prems(5) have
    t1: "map_of (mrna_info st1) t = Some (b @ concat (cds_lines [l] t))"
      "map_of (mrna_gene st1) t = Some g"
      "glen st1 g t = Some (n + cds_total [l] t)"
      "\<forall>g0. g0 \<noteq> g \<longrightarrow> glen st1 g0 t = glen st g0 t"
    by auto
  from Cons.IH [OF r nr t1(1) t1(2) t1(3)] t1(4) show ?case
    by (simp add: cds_lines_Cons [of l rest] cds_total_Cons [of l rest])
qed

lemma readgff_loop_after_mrna:
  assumes rec: "mrna_rec line = Some (t, g)"
    and run: "readgff_loop st (line # rest) = Inr st'"
    and last: "\<forall>l\<in>set rest. \<not> has_id t l"
  shows "map_of (mrna_info st') t = Some (line @ concat (cds_lines rest t)) \<and>
         map_of (mrna_gene st') t = Some g \<and>
         glen st' g t = Some (cds_total rest t) \<and>
         (\<forall>g0. g0 \<noteq> g \<longrightarrow> glen st' g0 t = glen st g0 t)"
proof -
  define st1 where "st1 = st\<lparr>mrna_gene := AList.update t g (mrna_gene st),
             gene_mrna_len := AList.update g
                 (AList.update t 0 (case map_of (gene_mrna_len st) g of None \<Rightarrow> [] | Some d \<Rightarrow> d))
                 (gene_mrna_len st),
             mrna_info := AList.update t line (mrna_info st)\<rparr>"
  have s1: "readgff_line st line = Inr st1"
    unfolding st1_def using rec by (rule readgff_line_mrna)
  with run have r: "readgff_loop st1 rest = Inr st'" by simp
  have gl: "\<And>g' t'. glen st1 g' t' = (if g' = g \<and> t' = t then Some 0 else glen st g' t')"
    unfolding st1_def by (rule glen_mrna)
  have b: "map_of (mrna_info st1) t = Some line" by (simp add: st1_def update_conv')
  have mg: "map_of (mrna_gene st1) t = Some g" by (simp add: st1_def update_conv')
  have n: "glen st1 g t = Some 0" by (simp add: gl)
  from readgff_loop_tracks [OF r last b mg n] show ?thesis by (simp add: gl)
qed

lemma mrnas_set: "set (mrnas ls) = {p. \<exists>l\<in>set ls. mrna_rec l = Some p}"
  by (induction ls) (auto simp: mrnas_def map_filter_simps split: option.splits)

lemma registered_iff: "t \<in> fst ` set (mrnas ls) \<longleftrightarrow> (\<exists>l\<in>set ls. has_id t l)"
  by (force simp: mrnas_set has_id_iff)

lemma readgff_loop_prefix:
  assumes "readgff_loop st (xs @ ys) = Inr st'"
  shows "\<exists>st1. readgff_loop st xs = Inr st1 \<and> readgff_loop st1 ys = Inr st'"
  using assms by (auto simp: readgff_loop_append split: sum.splits)

lemma buffer_of_registered:
  assumes run: "readgff_loop init_state ls = Inr st" and reg: "t \<in> fst ` set (mrnas ls)"
  shows "\<exists>pre line rest g. ls = pre @ line # rest \<and> mrna_rec line = Some (t, g) \<and>
           (\<forall>l\<in>set rest. \<not> has_id t l) \<and>
           map_of (mrna_info st) t = Some (line @ concat (cds_lines rest t)) \<and>
           map_of (mrna_gene st) t = Some g \<and>
           glen st g t = Some (cds_total rest t)"
proof -
  from reg have "\<exists>l\<in>set ls. has_id t l" by (simp add: registered_iff)
  from split_list_last_prop [OF this] obtain pre line rest where
    ls: "ls = pre @ line # rest" and line: "has_id t line" and rest: "\<forall>l\<in>set rest. \<not> has_id t l"
    by blast
  from line obtain g where g: "mrna_rec line = Some (t, g)" by (auto simp: has_id_iff)
  from run ls obtain st1 where "readgff_loop st1 (line # rest) = Inr st"
    using readgff_loop_prefix by blast
  from readgff_loop_after_mrna [OF g this rest] ls g rest show ?thesis by blast
qed

section \<open>Well-formed files\<close>

lemma mrnas_append: "mrnas (xs @ ys) = mrnas xs @ mrnas ys"
  by (induction xs) (auto simp: mrnas_def map_filter_simps split: option.splits)

lemma mrnas_Cons: "mrnas (l # ls) = (case mrna_rec l of None \<Rightarrow> [] | Some p \<Rightarrow> [p]) @ mrnas ls"
  by (simp add: mrnas_def map_filter_simps split: option.splits)

lemma cds_lines_append: "cds_lines (xs @ ys) t = cds_lines xs t @ cds_lines ys t"
  by (simp add: cds_lines_def)

lemma mrna_first_append:
  "mrna_first (xs @ ys) \<Longrightarrow> l \<in> set xs \<Longrightarrow> cds_rec l = Some p \<Longrightarrow> p \<notin> fst ` set (mrnas ys)"
proof (induction xs)
  case Nil
  then show ?case by simp
next
  case (Cons x xs)
  show ?case
  proof (cases "l = x")
    case True
    with Cons.prems have "p \<notin> fst ` set (mrnas (xs @ ys))" by simp
    then show ?thesis by (simp add: mrnas_append image_Un)
  next
    case False
    with Cons show ?thesis by simp
  qed
qed

lemma readgff_line_ok:
  assumes inv: "scan_inv ls st" and ok: "cds_rec l \<noteq> None \<longrightarrow> cds_len l \<noteq> None"
  shows "\<exists>st'. readgff_line st l = Inr st'"
proof (cases "readgff_line st l")
  case (Inl e)
  show ?thesis
  proof (cases "mrna_rec l")
    case None
    show ?thesis
    proof (cases "cds_rec l")
      case None
      with \<open>mrna_rec l = None\<close> show ?thesis by (simp add: readgff_line_skip)
    next
      case (Some p)
      show ?thesis
      proof (cases "map_of (mrna_info st) p")
        case None
        with Some show ?thesis by (simp add: readgff_line_cds_unregistered)
      next
        case (Some buf)
        from scan_inv_lookup [OF inv Some] obtain g d n where
          "map_of (mrna_gene st) p = Some g" "map_of (gene_mrna_len st) g = Some d"
          "map_of d p = Some n" by blast
        moreover from ok \<open>cds_rec l = Some p\<close> obtain k where "cds_len l = Some k" by auto
        ultimately show ?thesis using \<open>cds_rec l = Some p\<close> Some
          by (simp add: readgff_line_cds_registered)
      qed
    qed
  next
    case (Some tg)
    then obtain t g where "mrna_rec l = Some (t, g)" by (cases tg) simp
    then show ?thesis by (simp add: readgff_line_mrna)
  qed
next
  case (Inr st')
  then show ?thesis by blast
qed

lemma readgff_loop_ok:
  "cds_coordinates_ok ls \<Longrightarrow> \<exists>st. readgff_loop init_state ls = Inr st"
proof (induction ls rule: rev_induct)
  case Nil
  then show ?case by simp
next
  case (snoc l ls)
  then obtain st where st: "readgff_loop init_state ls = Inr st"
    by (auto simp: cds_coordinates_ok_def)
  from snoc.prems have "cds_rec l \<noteq> None \<longrightarrow> cds_len l \<noteq> None"
    by (simp add: cds_coordinates_ok_def)
  from readgff_line_ok [OF scan_inv_loop [OF st] this] st show ?case
    by (auto simp: readgff_loop_append)
qed

lemma wf_final_state:
  assumes wf: "wf_gff ls" and run: "readgff_loop init_state ls = Inr st"
    and tg: "(t, g) \<in> set (mrnas ls)"
  shows "map_of (mrna_info st) t = Some (block_of ls t) \<and> glen st g t = Some (cds_total ls t)"
proof -
  from tg have "t \<in> fst ` set (mrnas ls)" by force
  from buffer_of_registered [OF run this] obtain pre line rest g' where
    ls: "ls = pre @ line # rest" and rec: "mrna_rec line = Some (t, g')"
    and rest: "\<forall>l\<in>set rest. \<not> has_id t l"
    and buf: "map_of (mrna_info st) t = Some (line @ concat (cds_lines rest t))"
    and len: "glen st g' t = Some (cds_total rest t)"
    by blast
  from wf have dist: "distinct (map fst (mrnas ls))" and first: "mrna_first ls"
    by (simp_all add: wf_gff_def)
  have m: "mrnas ls = mrnas pre @ (t, g') # mrnas rest"
    by (simp add: ls mrnas_append mrnas_Cons rec)
  then have "(t, g') \<in> set (mrnas ls)" by simp
  with tg dist have g: "g' = g" by (meson eq_key_imp_eq_value)
  from dist m have "t \<notin> fst ` set (mrnas pre)" by auto
  then have pre: "\<forall>l\<in>set pre. \<not> has_id t l" by (simp add: registered_iff)
  have "t \<in> fst ` set (mrnas (line # rest))" by (force simp add: mrnas_Cons rec)
  with mrna_first_append [of pre "line # rest"] first ls
  have "\<forall>l\<in>set pre. cds_rec l \<noteq> Some t" by blast
  then have cpre: "cds_lines pre t = []" by (simp add: cds_lines_def filter_empty_conv)
  have cline: "cds_lines [line] t = []"
    using mrna_rec_not_cds [OF rec] by (simp add: cds_lines_def)
  have cl: "cds_lines ls t = cds_lines rest t"
    using cpre cline cds_lines_append [of pre "line # rest" t] cds_lines_Cons [of line rest t]
    by (simp add: ls)
  then have ct: "cds_total ls t = cds_total rest t" by (simp add: cds_total_def)
  have "filter (has_id t) pre = []" using pre by (simp add: filter_empty_conv)
  moreover have "has_id t line" using rec by (auto simp: has_id_iff)
  ultimately have "mrna_line ls t = line" by (simp add: mrna_line_def ls)
  with buf len g cl ct show ?thesis by (simp add: block_of_def)
qed

lemma transcripts_iff: "t \<in> set (transcripts ls g) \<longleftrightarrow> (t, g) \<in> set (mrnas ls)"
  by (force simp: transcripts_def)

lemma scan_inv_gene_entry:
  assumes inv: "scan_inv ls st" and tg: "(t, g) \<in> set (mrnas ls)"
  shows "\<exists>d. map_of (gene_mrna_len st) g = Some d \<and> map fst d = first_occ (transcripts ls g)"
proof -
  from tg have "g \<in> set (first_occ (map snd (mrnas ls)))" by force
  with inv have "g \<in> set (map fst (gene_mrna_len st))" by (simp add: scan_inv_def)
  then obtain d where d: "map_of (gene_mrna_len st) g = Some d"
    by (metis map_of_key_iff not_Some_eq)
  with inv have "map fst d = first_occ (transcripts ls g)" unfolding scan_inv_def by blast
  with d show ?thesis by blast
qed

lemma selected_of_gene:
  assumes wf: "wf_gff ls" and run: "readgff_loop init_state ls = Inr st"
    and t: "t \<in> set (transcripts ls g)"
    and dist: "distinct (map (cds_total ls) (transcripts ls g))"
    and mx: "\<forall>t'\<in>set (transcripts ls g). cds_total ls t' \<le> cds_total ls t"
  shows "\<exists>d. map_of (gene_mrna_len st) g = Some d \<and> first_longest d = Some t"
proof -
  have inv: "scan_inv ls st" using run by (rule scan_inv_loop)
  from t have tg: "(t, g) \<in> set (mrnas ls)" by (simp add: transcripts_iff)
  from scan_inv_gene_entry [OF inv tg] obtain d where
    d: "map_of (gene_mrna_len st) g = Some d" and keys: "map fst d = first_occ (transcripts ls g)"
    by blast
  from keys have dk: "distinct (map fst d)" by simp
  have val: "snd p = cds_total ls (fst p)" and mem: "fst p \<in> set (transcripts ls g)"
    if "p \<in> set d" for p
  proof -
    from that have "fst p \<in> set (map fst d)" by simp
    with keys show m: "fst p \<in> set (transcripts ls g)" by simp
    then have "(fst p, g) \<in> set (mrnas ls)" by (simp add: transcripts_iff)
    from wf_final_state [OF wf run this] d have "map_of d (fst p) = Some (cds_total ls (fst p))"
      by (simp add: glen_def)
    moreover from that dk have "map_of d (fst p) = Some (snd p)" by simp
    ultimately show "snd p = cds_total ls (fst p)" by simp
  qed
  from t keys have "t \<in> set (map fst d)" by simp
  then obtain n where tn: "(t, n) \<in> set d" by auto
  from val [OF tn] have n: "n = cds_total ls t" by simp
  from split_list [OF tn] obtain pre post where dec: "d = pre @ (t, n) # post" by blast
  have inj: "inj_on (cds_total ls) (set (transcripts ls g))"
    using dist by (simp add: distinct_map)
  have less: "snd p < n" if "p \<in> set pre \<union> set post" for p
  proof -
    from that dec have pd: "p \<in> set d" by auto
    from that dec dk have "fst p \<noteq> t" by force
    with inj mem [OF pd] t have "cds_total ls (fst p) \<noteq> cds_total ls t"
      by (auto dest: inj_onD)
    moreover from mx mem [OF pd] have "cds_total ls (fst p) \<le> cds_total ls t" by blast
    ultimately show ?thesis using val [OF pd] n by simp
  qed
  have "first_longest d = Some t"
  proof (rule first_longest_decomp [OF dec])
    show "\<forall>p\<in>set pre. snd p < n" using less by blast
    show "\<forall>p\<in>set post. snd p \<le> n" using less by force
  qed
  with d show ?thesis by blast
qed

lemma selected_ids_distinct:
  assumes dist: "distinct (map fst (mrnas ls))" and run: "readgff_loop init_state ls = Inr st"
    and ids: "map Some ids = map (\<lambda>gd. first_longest (snd gd)) (gene_mrna_len st)"
  shows "distinct ids"
proof -
  have inv: "scan_inv ls st" using run by (rule scan_inv_loop)
  then have dk: "distinct (map fst (gene_mrna_len st))" by (simp add: scan_inv_def)
  then have dg: "distinct (gene_mrna_len st)" by (simp add: distinct_map)
  have "inj_on (\<lambda>gd. first_longest (snd gd)) (set (gene_mrna_len st))"
  proof (rule inj_onI)
    fix a b assume a: "a \<in> set (gene_mrna_len st)" and b: "b \<in> set (gene_mrna_len st)"
      and e: "first_longest (snd a) = first_longest (snd b)"
    from scan_inv_nonempty [OF inv a] sorted_desc_first_longest obtain i where
      i: "first_longest (snd a) = Some i" by blast
    have own: "(i, fst c) \<in> set (mrnas ls)"
      if "c \<in> set (gene_mrna_len st)" "first_longest (snd c) = Some i" for c
    proof -
      from that(1) dk have "map_of (gene_mrna_len st) (fst c) = Some (snd c)" by simp
      with inv have "map fst (snd c) = first_occ (transcripts ls (fst c))"
        unfolding scan_inv_def by blast
      with first_longest_in_keys [OF that(2)] show ?thesis by (simp add: transcripts_iff)
    qed
    from own [OF a i] own [OF b] e i dist have "fst a = fst b"
      by (metis eq_key_imp_eq_value)
    with a b dk show "a = b" by (metis eq_key_imp_eq_value prod.collapse)
  qed
  with dg have "distinct (map (\<lambda>gd. first_longest (snd gd)) (gene_mrna_len st))"
    by (simp add: distinct_map)
  with ids have "distinct (map Some ids)" by simp
  then show ?thesis by (simp add: distinct_map)
qed

lemma selected_in_set:
  assumes "map Some ids = map (\<lambda>gd. first_longest (snd gd)) genelen"
    and "map_of genelen g = Some d" and "first_longest d = Some t"
  shows "t \<in> set ids"
proof -
  from assms(2) have "(g, d) \<in> set genelen" by (rule map_of_SomeD)
  then have "first_longest (snd (g, d)) \<in> set (map (\<lambda>gd. first_longest (snd gd)) genelen)"
    by (metis (no_types, lifting) image_eqI set_map)
  with assms(1,3) have "Some t \<in> set (map Some ids)" by simp
  then show ?thesis by auto
qed

section \<open>Lines of the output\<close>

















section \<open>The claims\<close>

text \<open>
  C1. Let the input be well formed: the ids of its \<open>mRNA\<close> records are pairwise distinct,
  columns 4 and 5 of its \<open>CDS\<close> records are integers that \<open>int\<close> accepts, and no \<open>mRNA\<close> record comes after a
  \<open>CDS\<close> record that names it. Let \<open>t\<close> be a transcript of gene \<open>g\<close> whose summed \<open>CDS\<close>
  length is maximal among the transcripts of \<open>g\<close>, these sums being pairwise distinct.
  Then the run completes, the output is the concatenation of the feature blocks (the
  \<open>mRNA\<close> line followed by the \<open>CDS\<close> lines of the transcript) of the selected ids, each
  written once, \<open>t\<close> is selected and no other transcript of \<open>g\<close> is. A gene with a
  single transcript is covered as well.
\<close>

theorem longest_transcript_is_written:
  assumes "outgff self \<notin> set (readonly w)"
    and "map_of (files w) (gff self) = Some src"
    and "gff self \<noteq> outgff self"
    and "wf_gff (file_lines src)"
    and "t \<in> set (transcripts (file_lines src) g)"
    and "distinct (map (cds_total (file_lines src)) (transcripts (file_lines src) g))"
    and "\<forall>t'\<in>set (transcripts (file_lines src) g).
           cds_total (file_lines src) t' \<le> cds_total (file_lines src) t"
  shows "\<exists>ids. fst (main self w) = Completed \<and>
           map_of (files (snd (main self w))) (outgff self) =
             Some (concat (map (block_of (file_lines src)) ids)) \<and>
           distinct ids \<and> t \<in> set ids \<and>
           (\<forall>t'\<in>set (transcripts (file_lines src) g). t' \<noteq> t \<longrightarrow> t' \<notin> set ids)"
proof -
  define ls where "ls = file_lines src"
  from assms(4) have wf: "wf_gff ls" by (simp add: ls_def)
  then have ok: "cds_coordinates_ok ls" and dist: "distinct (map fst (mrnas ls))"
    by (simp_all add: wf_gff_def)
  from readgff_loop_ok [OF ok] obtain st where run: "readgff_loop init_state ls = Inr st"
    by blast
  have inv: "scan_inv ls st" using run by (rule scan_inv_loop)
  from main_success [OF assms(1) assms(2) assms(3) run [unfolded ls_def]] obtain ids where
    ids: "map Some ids = map (\<lambda>gd. first_longest (snd gd)) (gene_mrna_len st)"
    and found: "\<forall>i\<in>set ids. map_of (mrna_info st) i \<noteq> None"
    and m: "main self w =
             (Completed,
              w\<lparr>files := AList.update (outgff self)
                          (concat (map (\<lambda>i. the (map_of (mrna_info st) i)) ids)) (files w),
                err := err w @ stderr st\<rparr>)"
    by blast
  have blocks: "map (\<lambda>i. the (map_of (mrna_info st) i)) ids = map (block_of ls) ids"
  proof (rule map_cong [OF refl])
    fix i assume "i \<in> set ids"
    with found have "i \<in> fst ` set (mrna_info st)" by (simp add: map_of_eq_None_iff)
    with inv obtain gi where "(i, gi) \<in> set (mrnas ls)" by (auto simp: scan_inv_def)
    from wf_final_state [OF wf run this] show "the (map_of (mrna_info st) i) = block_of ls i"
      by simp
  qed
  have out: "map_of (files (snd (main self w))) (outgff self) =
             Some (concat (map (block_of ls) ids))"
    by (simp add: m blocks update_conv')
  from selected_of_gene [OF wf run] assms(5,6,7) obtain d where
    d: "map_of (gene_mrna_len st) g = Some d" "first_longest d = Some t"
    unfolding ls_def by blast
  have sel: "t \<in> set ids" using ids d by (rule selected_in_set)
  have di: "distinct ids" using dist run ids by (rule selected_ids_distinct)
  have others: "\<forall>t'\<in>set (transcripts ls g). t' \<noteq> t \<longrightarrow> t' \<notin> set ids"
  proof (intro ballI impI notI)
    fix t' assume t': "t' \<in> set (transcripts ls g)" and ne: "t' \<noteq> t" and "t' \<in> set ids"
    with ids obtain gd where gd: "gd \<in> set (gene_mrna_len st)" "first_longest (snd gd) = Some t'"
      using map_Some_eq_nth by fastforce
    from inv have dk: "distinct (map fst (gene_mrna_len st))" by (simp add: scan_inv_def)
    with gd(1) have mo: "map_of (gene_mrna_len st) (fst gd) = Some (snd gd)" by simp
    with inv have "map fst (snd gd) = first_occ (transcripts ls (fst gd))"
      unfolding scan_inv_def by blast
    with first_longest_in_keys [OF gd(2)] have "(t', fst gd) \<in> set (mrnas ls)"
      by (simp add: transcripts_iff)
    moreover from t' have "(t', g) \<in> set (mrnas ls)" by (simp add: transcripts_iff)
    ultimately have "fst gd = g" using dist by (meson eq_key_imp_eq_value)
    with mo d(1) have "snd gd = d" by simp
    with gd(2) d(2) ne show False by simp
  qed
  from m out di sel others show ?thesis unfolding ls_def by auto
qed

theorem longest_transcript_is_written_witness:
  "wf_gff (file_lines (ex_m1 @ ex_c1 @ ex_m2 @ ex_c2 @ ex_m3 @ ex_orphan)) \<and>
   transcripts (file_lines (ex_m1 @ ex_c1 @ ex_m2 @ ex_c2 @ ex_m3 @ ex_orphan)) ''g1'' = [''t1'', ''t2''] \<and>
   map (cds_total (file_lines (ex_m1 @ ex_c1 @ ex_m2 @ ex_c2 @ ex_m3 @ ex_orphan))) [''t1'', ''t2''] = [300, 150] \<and>
   main ex_self (ex_world (ex_m1 @ ex_c1 @ ex_m2 @ ex_c2 @ ex_m3 @ ex_orphan)) =
     (Completed,
      \<lparr>files = [(''in.gff'', ex_m1 @ ex_c1 @ ex_m2 @ ex_c2 @ ex_m3 @ ex_orphan),
                (''out.gff'', ex_m1 @ ex_c1 @ ex_m3)],
        readonly = [], err = [Warn_no_mrna_info ''t9'']\<rparr>) \<and>
   (\<exists>ids. concat (map (block_of (file_lines (ex_m1 @ ex_c1 @ ex_m2 @ ex_c2 @ ex_m3 @ ex_orphan))) ids) =
            ex_m1 @ ex_c1 @ ex_m3 \<and>
          ''t1'' \<in> set ids \<and> ''t2'' \<notin> set ids)"
proof -
  define src where "src = ex_m1 @ ex_c1 @ ex_m2 @ ex_c2 @ ex_m3 @ ex_orphan"
  have a: "outgff ex_self \<notin> set (readonly (ex_world src))"
    unfolding src_def by code_simp
  have b: "map_of (files (ex_world src)) (gff ex_self) = Some src"
    unfolding src_def by code_simp
  have c: "gff ex_self \<noteq> outgff ex_self"
    by code_simp
  have d: "wf_gff (file_lines src)"
    unfolding src_def by code_simp
  have e: "transcripts (file_lines src) ''g1'' = [''t1'', ''t2'']"
    unfolding src_def by code_simp
  have f: "map (cds_total (file_lines src)) [''t1'', ''t2''] = [300, 150]"
    unfolding src_def by code_simp
  have g: "main ex_self (ex_world src) =
     (Completed,
      \<lparr>files = [(''in.gff'', src), (''out.gff'', ex_m1 @ ex_c1 @ ex_m3)],
        readonly = [], err = [Warn_no_mrna_info ''t9'']\<rparr>)"
    unfolding src_def by code_simp
  have o: "outgff ex_self = ''out.gff''"
    by code_simp
  have h1: "''t1'' \<in> set (transcripts (file_lines src) ''g1'')" by (simp add: e)
  have h2: "distinct (map (cds_total (file_lines src)) (transcripts (file_lines src) ''g1''))"
    using f by (simp add: e)
  have h3: "\<forall>t'\<in>set (transcripts (file_lines src) ''g1'').
           cds_total (file_lines src) t' \<le> cds_total (file_lines src) ''t1''"
    using f by (simp add: e)
  from longest_transcript_is_written [OF a b c d h1 h2 h3] obtain ids where
    "map_of (files (snd (main ex_self (ex_world src)))) (outgff ex_self) =
             Some (concat (map (block_of (file_lines src)) ids))"
    "''t1'' \<in> set ids"
    "\<forall>t'\<in>set (transcripts (file_lines src) ''g1''). t' \<noteq> ''t1'' \<longrightarrow> t' \<notin> set ids"
    by blast
  then have "concat (map (block_of (file_lines src)) ids) = ex_m1 @ ex_c1 @ ex_m3 \<and>
          ''t1'' \<in> set ids \<and> ''t2'' \<notin> set ids"
    by (simp add: g e o)
  with d e f g show ?thesis unfolding src_def by blast
qed

text \<open>
  C6. Whatever \<open>_readgff\<close> returns, every gene of the first dictionary has at least one
  transcript, and \<open>_getmax\<close> on it returns a list: \<open>newidlen[0]\<close> never fails.
\<close>

theorem scanner_genes_have_transcripts:
  assumes "readgff self w = Inr ((g_m_l, m_i, r_p), log)"
  shows "(\<forall>gd\<in>set g_m_l. snd gd \<noteq> []) \<and> (\<exists>ids. getmax g_m_l = Inr ids)"
proof -
  from readgff_InrD [OF assms] obtain src st where
    st: "readgff_loop init_state (file_lines src) = Inr st" "g_m_l = gene_mrna_len st"
    by blast
  from scan_inv_loop [OF st(1)] have ne: "\<forall>gd\<in>set g_m_l. snd gd \<noteq> []"
    using scan_inv_nonempty st(2) by blast
  with getmax_first_longest [OF ne] show ?thesis by blast
qed

theorem scanner_genes_have_transcripts_witness:
  "readgff ex_self (ex_world (ex_m1 @ ex_c1 @ ex_m3)) =
     Inr (([(''g1'', [(''t1'', 300)]), (''g2'', [(''t3'', 0)])],
           [(''t1'', ex_m1 @ ex_c1), (''t3'', ex_m3)], [(''t1'', ''t1'')]), []) \<and>
   (\<exists>ids. getmax [(''g1'', [(''t1'', 300)]), (''g2'', [(''t3'', 0)])] = Inr ids)"
proof -
  have h: "readgff ex_self (ex_world (ex_m1 @ ex_c1 @ ex_m3)) =
     Inr (([(''g1'', [(''t1'', 300)]), (''g2'', [(''t3'', 0)])],
           [(''t1'', ex_m1 @ ex_c1), (''t3'', ex_m3)], [(''t1'', ''t1'')]), [])"
    by code_simp
  from scanner_genes_have_transcripts [OF h] h show ?thesis by blast
qed

text \<open>
  C7. Every id that \<open>_getmax\<close> selects from the scanner's result is a key of the buffer
  dictionary, so the loop of \<open>main\<close> writes one buffer per selected id and never takes
  the branch that warns about a missing buffer.
\<close>

theorem selected_ids_have_buffers:
  assumes "readgff self w = Inr ((g_m_l, m_i, r_p), log)" and "getmax g_m_l = Inr ids"
  shows "(\<forall>i\<in>set ids. map_of m_i i \<noteq> None) \<and> snd (write_blocks m_i ids) = [] \<and>
         length (fst (write_blocks m_i ids)) = length ids"
proof -
  from readgff_InrD [OF assms(1)] obtain src st where
    st: "readgff_loop init_state (file_lines src) = Inr st" "g_m_l = gene_mrna_len st"
      "m_i = mrna_info st"
    by blast
  have found: "\<forall>i\<in>set ids. map_of m_i i \<noteq> None"
    using scan_inv_selected_registered [OF scan_inv_loop [OF st(1)]] assms(2) st(2,3) by blast
  with write_blocks_all_found [OF found] show ?thesis by simp
qed

theorem selected_ids_have_buffers_witness:
  "readgff ex_self (ex_world (ex_m1 @ ex_m2 @ ex_c2 @ ex_orphan)) =
     Inr (([(''g1'', [(''t1'', 0), (''t2'', 150)])],
           [(''t1'', ex_m1), (''t2'', ex_m2 @ ex_c2)], [(''t2'', ''t2''), (''t9'', ''t9'')]),
          [Warn_no_mrna_info ''t9'']) \<and>
   getmax [(''g1'', [(''t1'', 0), (''t2'', 150)])] = Inr [''t2''] \<and>
   write_blocks [(''t1'', ex_m1), (''t2'', ex_m2 @ ex_c2)] [''t2''] = ([ex_m2 @ ex_c2], [])"
proof -
  have h: "readgff ex_self (ex_world (ex_m1 @ ex_m2 @ ex_c2 @ ex_orphan)) =
     Inr (([(''g1'', [(''t1'', 0), (''t2'', 150)])],
           [(''t1'', ex_m1), (''t2'', ex_m2 @ ex_c2)], [(''t2'', ''t2''), (''t9'', ''t9'')]),
          [Warn_no_mrna_info ''t9''])"
    by code_simp
  have g: "getmax [(''g1'', [(''t1'', 0), (''t2'', 150)])] = Inr [''t2'']"
    by code_simp
  from selected_ids_have_buffers [OF h g] h g show ?thesis
    by (simp add: prod_eq_iff)
qed

text \<open>
  C2. For every gene of the scanner's result, \<open>_getmax\<close> selects the first entry, in the
  order of the gene's transcript dictionary, among those of maximal length
  (\<open>first_longest\<close>). The keys of that dictionary stand in the order in which the ids
  were first registered by \<open>mRNA\<close> records of the gene, and the genes in the order of
  their first \<open>mRNA\<close> record. The selection is a function of the input lines, so the
  same input gives the same selection.
\<close>

theorem tie_selects_first_registered:
  assumes "readgff_loop init_state ls = Inr st"
  shows "\<exists>ids. getmax (gene_mrna_len st) = Inr ids \<and>
           map Some ids = map (\<lambda>gd. first_longest (snd gd)) (gene_mrna_len st) \<and>
           map fst (gene_mrna_len st) = first_occ (map snd (mrnas ls)) \<and>
           (\<forall>gd\<in>set (gene_mrna_len st). map fst (snd gd) = first_occ (transcripts ls (fst gd)))"
proof -
  have inv: "scan_inv ls st" using assms by (rule scan_inv_loop)
  then have ne: "\<forall>gd\<in>set (gene_mrna_len st). snd gd \<noteq> []"
    using scan_inv_nonempty by blast
  have keys: "map fst (gene_mrna_len st) = first_occ (map snd (mrnas ls))"
    using inv by (simp add: scan_inv_def)
  then have dist: "distinct (map fst (gene_mrna_len st))" by simp
  have inner: "\<forall>gd\<in>set (gene_mrna_len st). map fst (snd gd) = first_occ (transcripts ls (fst gd))"
  proof
    fix gd assume "gd \<in> set (gene_mrna_len st)"
    with dist have "map_of (gene_mrna_len st) (fst gd) = Some (snd gd)" by simp
    with inv show "map fst (snd gd) = first_occ (transcripts ls (fst gd))"
      unfolding scan_inv_def by blast
  qed
  from getmax_first_longest [OF ne] keys inner show ?thesis by blast
qed

theorem tie_selects_first_registered_witness:
  "readgff_loop init_state [ex_m1, ex_c1, ex_m2, ex_c2, ex_c2b] =
     Inr \<lparr>gene_mrna_len = [(''g1'', [(''t1'', 300), (''t2'', 300)])],
          mrna_info = [(''t1'', ex_m1 @ ex_c1), (''t2'', ex_m2 @ ex_c2 @ ex_c2b)],
          rna_proid = [(''t1'', ''t1''), (''t2'', ''t2'')],
          mrna_gene = [(''t1'', ''g1''), (''t2'', ''g1'')], stderr = []\<rparr> \<and>
   getmax [(''g1'', [(''t1'', 300), (''t2'', 300)])] = Inr [''t1''] \<and>
   first_longest [(''t1'', 300), (''t2'', 300)] = Some ''t1'' \<and>
   first_occ (transcripts [ex_m1, ex_c1, ex_m2, ex_c2, ex_c2b] ''g1'') = [''t1'', ''t2'']"
proof -
  have h: "readgff_loop init_state [ex_m1, ex_c1, ex_m2, ex_c2, ex_c2b] =
     Inr \<lparr>gene_mrna_len = [(''g1'', [(''t1'', 300), (''t2'', 300)])],
          mrna_info = [(''t1'', ex_m1 @ ex_c1), (''t2'', ex_m2 @ ex_c2 @ ex_c2b)],
          rna_proid = [(''t1'', ''t1''), (''t2'', ''t2'')],
          mrna_gene = [(''t1'', ''g1''), (''t2'', ''g1'')], stderr = []\<rparr>"
    by code_simp
  have f: "first_longest [(''t1'', 300), (''t2'', 300)] = Some ''t1''"
    by code_simp
  from tie_selects_first_registered [OF h] obtain ids where
    ids: "getmax [(''g1'', [(''t1'', 300), (''t2'', 300)])] = Inr ids"
      "map Some ids = [first_longest [(''t1'', 300), (''t2'', 300)]]"
      "[(''t1''), (''t2'')] = first_occ (transcripts [ex_m1, ex_c1, ex_m2, ex_c2, ex_c2b] ''g1'')"
    by auto
  from ids(2) f have "ids = [''t1'']" by auto
  with h ids f show ?thesis by simp
qed

text \<open>
  C10. An \<open>mRNA\<close> record with id \<open>t\<close> and parent \<open>g\<close> overwrites whatever was stored for
  \<open>t\<close> before it: with no further \<open>mRNA\<close> record of that id after it, the buffer of \<open>t\<close>
  at the end is this line followed by the \<open>CDS\<close> lines after it that name \<open>t\<close>, the
  length of \<open>t\<close> under \<open>g\<close> is the sum over those lines only, \<open>t\<close> maps to \<open>g\<close>, and
  what any other gene records for \<open>t\<close> is what it was before the line.
\<close>

theorem later_mrna_record_overwrites:
  assumes "readgff_loop init_state pre = Inr st"
    and "mrna_rec line = Some (t, g)"
    and "\<forall>l\<in>set rest. \<not> has_id t l"
    and "readgff_loop init_state (pre @ line # rest) = Inr st'"
  shows "map_of (mrna_info st') t = Some (line @ concat (cds_lines rest t)) \<and>
         glen st' g t = Some (cds_total rest t) \<and>
         map_of (mrna_gene st') t = Some g \<and>
         (\<forall>g0. g0 \<noteq> g \<longrightarrow> glen st' g0 t = glen st g0 t)"
proof -
  from assms(1,4) have "readgff_loop st (line # rest) = Inr st'"
    by (simp add: readgff_loop_append)
  from readgff_loop_after_mrna [OF assms(2) this assms(3)] show ?thesis by blast
qed

theorem later_mrna_record_overwrites_witness:
  "readgff_loop init_state [ex_m1, ex_c1] =
     Inr \<lparr>gene_mrna_len = [(''g1'', [(''t1'', 300)])], mrna_info = [(''t1'', ex_m1 @ ex_c1)],
          rna_proid = [(''t1'', ''t1'')], mrna_gene = [(''t1'', ''g1'')], stderr = []\<rparr> \<and>
   mrna_rec ex_m1_again = Some (''t1'', ''g2'') \<and>
   readgff_loop init_state ([ex_m1, ex_c1] @ ex_m1_again # [ex_c2, ex_c1]) =
     Inr \<lparr>gene_mrna_len = [(''g1'', [(''t1'', 300)]), (''g2'', [(''t1'', 300)])],
          mrna_info = [(''t1'', ex_m1_again @ ex_c1)],
          rna_proid = [(''t1'', ''t1''), (''t2'', ''t2'')],
          mrna_gene = [(''t1'', ''g2'')], stderr = [Warn_no_mrna_info ''t2'']\<rparr> \<and>
   ex_m1_again @ concat (cds_lines [ex_c2, ex_c1] ''t1'') = ex_m1_again @ ex_c1 \<and>
   cds_total [ex_c2, ex_c1] ''t1'' = 300"
proof -
  have a: "readgff_loop init_state [ex_m1, ex_c1] =
     Inr \<lparr>gene_mrna_len = [(''g1'', [(''t1'', 300)])], mrna_info = [(''t1'', ex_m1 @ ex_c1)],
          rna_proid = [(''t1'', ''t1'')], mrna_gene = [(''t1'', ''g1'')], stderr = []\<rparr>"
    by code_simp
  have b: "mrna_rec ex_m1_again = Some (''t1'', ''g2'')"
    by code_simp
  have c: "\<forall>l\<in>set [ex_c2, ex_c1]. \<not> has_id ''t1'' l"
    by code_simp
  have d: "readgff_loop init_state ([ex_m1, ex_c1] @ ex_m1_again # [ex_c2, ex_c1]) =
     Inr \<lparr>gene_mrna_len = [(''g1'', [(''t1'', 300)]), (''g2'', [(''t1'', 300)])],
          mrna_info = [(''t1'', ex_m1_again @ ex_c1)],
          rna_proid = [(''t1'', ''t1''), (''t2'', ''t2'')],
          mrna_gene = [(''t1'', ''g2'')], stderr = [Warn_no_mrna_info ''t2'']\<rparr>"
    by code_simp
  from later_mrna_record_overwrites [OF a b c d] a b d show ?thesis
    by (simp add: glen_def)
qed

text \<open>
  C4. A \<open>CDS\<close> record whose \<open>Parent\<close> is not the id of an \<open>mRNA\<close> record read before it
  adds one warning to \<open>stderr\<close> and changes neither a buffer nor a length; the loop goes
  on with the lines after it.
\<close>

theorem cds_with_unregistered_parent:
  assumes "readgff_loop init_state pre = Inr st"
    and "cds_rec line = Some p"
    and "p \<notin> fst ` set (mrnas pre)"
  shows "\<exists>st'. readgff_line st line = Inr st' \<and>
           stderr st' = stderr st @ [Warn_no_mrna_info p] \<and>
           mrna_info st' = mrna_info st \<and>
           gene_mrna_len st' = gene_mrna_len st \<and>
           readgff_loop init_state (pre @ line # rest) = readgff_loop st' rest"
proof -
  from scan_inv_loop [OF assms(1)] assms(3) have "p \<notin> fst ` set (mrna_info st)"
    by (simp add: scan_inv_def)
  then have "map_of (mrna_info st) p = None" by (simp add: map_of_eq_None_iff)
  from readgff_line_cds_unregistered [OF assms(2) this] assms(1) show ?thesis
    by (simp add: readgff_loop_append)
qed

theorem cds_with_unregistered_parent_witness:
  "readgff_loop init_state [ex_m1] =
     Inr \<lparr>gene_mrna_len = [(''g1'', [(''t1'', 0)])], mrna_info = [(''t1'', ex_m1)],
          rna_proid = [], mrna_gene = [(''t1'', ''g1'')], stderr = []\<rparr> \<and>
   cds_rec ex_orphan = Some ''t9'' \<and>
   ''t9'' \<notin> fst ` set (mrnas [ex_m1]) \<and>
   readgff_loop init_state ([ex_m1] @ ex_orphan # [ex_c1]) =
     Inr \<lparr>gene_mrna_len = [(''g1'', [(''t1'', 300)])], mrna_info = [(''t1'', ex_m1 @ ex_c1)],
          rna_proid = [(''t9'', ''t9''), (''t1'', ''t1'')], mrna_gene = [(''t1'', ''g1'')],
          stderr = [Warn_no_mrna_info ''t9'']\<rparr>"
proof -
  have a: "readgff_loop init_state [ex_m1] =
     Inr \<lparr>gene_mrna_len = [(''g1'', [(''t1'', 0)])], mrna_info = [(''t1'', ex_m1)],
          rna_proid = [], mrna_gene = [(''t1'', ''g1'')], stderr = []\<rparr>"
    by code_simp
  have b: "cds_rec ex_orphan = Some ''t9''"
    by code_simp
  have c: "''t9'' \<notin> fst ` set (mrnas [ex_m1])"
    by code_simp
  have d: "readgff_loop init_state ([ex_m1] @ ex_orphan # [ex_c1]) =
     Inr \<lparr>gene_mrna_len = [(''g1'', [(''t1'', 300)])], mrna_info = [(''t1'', ex_m1 @ ex_c1)],
          rna_proid = [(''t9'', ''t9''), (''t1'', ''t1'')], mrna_gene = [(''t1'', ''g1'')],
          stderr = [Warn_no_mrna_info ''t9'']\<rparr>"
    by code_simp
  from cds_with_unregistered_parent [OF a b c, of "[ex_c1]"] a b c d show ?thesis
    by blast
qed

text \<open>
  C9. \<open>main\<close> opens the output file before \<open>_readgff\<close> opens the input. So whenever the
  output file can be opened and the run does not complete, the output file exists
  afterwards and is empty, whatever it held before; and when input and output are the
  same path the scanner reads the file already truncated.
\<close>

theorem output_truncated_before_reading:
  assumes "outgff self \<notin> set (readonly w)"
  shows "(fst (main self w) \<noteq> Completed \<longrightarrow>
            map_of (files (snd (main self w))) (outgff self) = Some []) \<and>
         (gff self = outgff self \<longrightarrow>
            fst (main self w) = Completed \<and>
            map_of (files (snd (main self w))) (outgff self) = Some [])"
proof -
  have 1: "fst (main self w) \<noteq> Completed \<longrightarrow>
            map_of (files (snd (main self w))) (outgff self) = Some []"
    using assms
    by (auto simp: main_def Let_def update_conv' split: sum.splits prod.splits if_splits)
  have 2: "gff self = outgff self \<longrightarrow>
            fst (main self w) = Completed \<and>
            map_of (files (snd (main self w))) (outgff self) = Some []"
    using assms
    by (auto simp: main_def Let_def readgff_def init_state_def update_conv')
  from 1 2 show ?thesis by blast
qed

theorem output_truncated_before_reading_witness:
  "outgff ex_self \<notin> set (readonly (ex_world (ex_m1 @ ex_bad_cds))) \<and>
   map_of (files (ex_world (ex_m1 @ ex_bad_cds))) (outgff ex_self) = Some ''old'' \<and>
   fst (main ex_self (ex_world (ex_m1 @ ex_bad_cds))) = Uncaught ValueError \<and>
   map_of (files (snd (main ex_self (ex_world (ex_m1 @ ex_bad_cds))))) (outgff ex_self) = Some []"
proof -
  have a: "outgff ex_self \<notin> set (readonly (ex_world (ex_m1 @ ex_bad_cds)))"
    by code_simp
  have b: "map_of (files (ex_world (ex_m1 @ ex_bad_cds))) (outgff ex_self) = Some ''old''"
    by code_simp
  have c: "fst (main ex_self (ex_world (ex_m1 @ ex_bad_cds))) = Uncaught ValueError"
    by code_simp
  from output_truncated_before_reading [OF a] a b c show ?thesis
    by simp
qed

text \<open>
  C3, as amended. A \<open>CDS\<close> record whose \<open>Parent\<close> is the id of an \<open>mRNA\<close> record read
  before it and whose column 4 or 5 is not an integer ends the run with an uncaught
  \<open>ValueError\<close>. The coordinates of an \<open>mRNA\<close> line are never parsed, and those of a
  \<open>CDS\<close> line with an unregistered parent are not reached.
\<close>

theorem cds_bad_coordinate_is_fatal:
  assumes "outgff self \<notin> set (readonly w)"
    and "map_of (files w) (gff self) = Some src"
    and "gff self \<noteq> outgff self"
    and "file_lines src = pre @ line # rest"
    and "cds_rec line = Some p"
    and "p \<in> fst ` set (mrnas pre)"
    and "py_int (split_tab (strip line) ! 3) = None \<or> py_int (split_tab (strip line) ! 4) = None"
  shows "fst (main self w) = Uncaught ValueError"
proof -
  from assms(7) have bad: "cds_len line = None"
    by (auto simp: cds_len_def split: option.splits)
  have "\<exists>e log. readgff_loop init_state (pre @ line # rest) = Inl (e, log)"
  proof (cases "readgff_loop init_state pre")
    case (Inl a)
    then show ?thesis by (cases a) (simp add: readgff_loop_append)
  next
    case (Inr st)
    have inv: "scan_inv pre st" using Inr by (rule scan_inv_loop)
    with assms(6) have "p \<in> fst ` set (mrna_info st)" by (simp add: scan_inv_def)
    then obtain buf where buf: "map_of (mrna_info st) p = Some buf"
      by (metis map_of_eq_None_iff not_Some_eq)
    from scan_inv_lookup [OF inv buf] obtain g where "map_of (mrna_gene st) p = Some g"
      by blast
    with bad buf assms(5) have "readgff_line st line = Inl ValueError"
      by (simp add: readgff_line_cds_registered)
    with Inr show ?thesis by (simp add: readgff_loop_append)
  qed
  then obtain e log where "readgff_loop init_state (file_lines src) = Inl (e, log)"
    using assms(4) by auto
  from main_failure [OF assms(1) assms(2) assms(3) this] show ?thesis by simp
qed

theorem cds_bad_coordinate_is_fatal_witness:
  "outgff ex_self \<notin> set (readonly (ex_world (ex_m1 @ ex_c1 @ ex_bad_cds @ ex_m3))) \<and>
   file_lines (ex_m1 @ ex_c1 @ ex_bad_cds @ ex_m3) = [ex_m1, ex_c1] @ ex_bad_cds # [ex_m3] \<and>
   cds_rec ex_bad_cds = Some ''t1'' \<and>
   ''t1'' \<in> fst ` set (mrnas [ex_m1, ex_c1]) \<and>
   py_int (split_tab (strip ex_bad_cds) ! 3) = None \<and>
   fst (main ex_self (ex_world (ex_m1 @ ex_c1 @ ex_bad_cds @ ex_m3))) = Uncaught ValueError"
proof -
  have a: "outgff ex_self \<notin> set (readonly (ex_world (ex_m1 @ ex_c1 @ ex_bad_cds @ ex_m3)))"
    by code_simp
  have b: "map_of (files (ex_world (ex_m1 @ ex_c1 @ ex_bad_cds @ ex_m3))) (gff ex_self) =
             Some (ex_m1 @ ex_c1 @ ex_bad_cds @ ex_m3)"
    by code_simp
  have c: "gff ex_self \<noteq> outgff ex_self"
    by code_simp
  have d: "file_lines (ex_m1 @ ex_c1 @ ex_bad_cds @ ex_m3) = [ex_m1, ex_c1] @ ex_bad_cds # [ex_m3]"
    by code_simp
  have e: "cds_rec ex_bad_cds = Some ''t1''"
    by code_simp
  have f: "''t1'' \<in> fst ` set (mrnas [ex_m1, ex_c1])"
    by code_simp
  have g: "py_int (split_tab (strip ex_bad_cds) ! 3) = None"
    by code_simp
  from g have g': "py_int (split_tab (strip ex_bad_cds) ! 3) = None \<or>
      py_int (split_tab (strip ex_bad_cds) ! 4) = None" by (rule disjI1)
  from cds_bad_coordinate_is_fatal [OF a b c d e f g'] a d e f g show ?thesis
    by blast
qed

text \<open>
  C3 as stated fails. An \<open>mRNA\<close> line whose columns 4 and 5 are not integers is registered
  and written out, and the run completes; so does a run over a \<open>CDS\<close> line with such
  columns whose parent was never registered, with a warning.
\<close>

theorem bad_coordinate_not_fatal_counterexample:
  "mrna_rec ex_bad_mrna = Some (''t1'', ''g1'') \<and>
   py_int (split_tab (strip ex_bad_mrna) ! 3) = None \<and>
   py_int (split_tab (strip ex_bad_mrna) ! 4) = None \<and>
   main ex_self (ex_world ex_bad_mrna) =
     (Completed,
      \<lparr>files = [(''in.gff'', ex_bad_mrna), (''out.gff'', ex_bad_mrna)], readonly = [], err = []\<rparr>) \<and>
   cds_rec ex_bad_cds = Some ''t1'' \<and>
   py_int (split_tab (strip ex_bad_cds) ! 3) = None \<and>
   main ex_self (ex_world ex_bad_cds) =
     (Completed,
      \<lparr>files = [(''in.gff'', ex_bad_cds), (''out.gff'', [])], readonly = [],
        err = [Warn_no_mrna_info ''t1'']\<rparr>)"
  by code_simp

text \<open>
  C5, as amended. When the run completes, \<open>main\<close> writes one buffer per gene of the
  scanner's dictionary, and these genes are the distinct \<open>Parent\<close> values of the \<open>mRNA\<close>
  records of the input. Each buffer written is the last \<open>mRNA\<close> line of the selected id
  followed by the \<open>CDS\<close> lines after it that name the id.
\<close>

theorem one_block_per_gene:
  assumes "fst (main self w) = Completed"
    and "map_of (files w) (gff self) = Some src"
    and "gff self \<noteq> outgff self"
  shows "\<exists>st ids. readgff_loop init_state (file_lines src) = Inr st \<and>
           getmax (gene_mrna_len st) = Inr ids \<and>
           map_of (files (snd (main self w))) (outgff self) =
             Some (concat (fst (write_blocks (mrna_info st) ids))) \<and>
           length (fst (write_blocks (mrna_info st) ids)) =
             card (snd ` set (mrnas (file_lines src))) \<and>
           map fst (gene_mrna_len st) = first_occ (map snd (mrnas (file_lines src))) \<and>
           map Some ids = map (\<lambda>gd. first_longest (snd gd)) (gene_mrna_len st) \<and>
           list_all2 (\<lambda>i b. \<exists>pre line rest. file_lines src = pre @ line # rest \<and>
                has_id i line \<and> (\<forall>l\<in>set rest. \<not> has_id i l) \<and>
                b = line @ concat (cds_lines rest i))
             ids (fst (write_blocks (mrna_info st) ids))"
proof -
  have wr: "outgff self \<notin> set (readonly w)"
    using assms(1) by (auto simp: main_def split: if_splits)
  obtain st where st: "readgff_loop init_state (file_lines src) = Inr st"
  proof (cases "readgff_loop init_state (file_lines src)")
    case (Inl a)
    obtain e log where "a = (e, log)" by (cases a)
    with Inl main_failure [OF wr assms(2) assms(3)] assms(1) show ?thesis by simp
  next
    case (Inr b)
    then show ?thesis using that by blast
  qed
  have inv: "scan_inv (file_lines src) st" using st by (rule scan_inv_loop)
  from main_success [OF wr assms(2) assms(3) st] obtain ids where
    ids: "getmax (gene_mrna_len st) = Inr ids"
      "map Some ids = map (\<lambda>gd. first_longest (snd gd)) (gene_mrna_len st)"
      "\<forall>i\<in>set ids. map_of (mrna_info st) i \<noteq> None"
    and m: "main self w =
             (Completed,
              w\<lparr>files := AList.update (outgff self)
                          (concat (map (\<lambda>i. the (map_of (mrna_info st) i)) ids)) (files w),
                err := err w @ stderr st\<rparr>)"
    by blast
  have wb: "write_blocks (mrna_info st) ids = (map (\<lambda>i. the (map_of (mrna_info st) i)) ids, [])"
    using ids(3) by (rule write_blocks_all_found)
  have out: "map_of (files (snd (main self w))) (outgff self) =
             Some (concat (fst (write_blocks (mrna_info st) ids)))"
    by (simp add: m wb update_conv')
  have keys: "map fst (gene_mrna_len st) = first_occ (map snd (mrnas (file_lines src)))"
    using inv by (simp add: scan_inv_def)
  have "length ids = length (map Some ids)" by simp
  also have "\<dots> = length (gene_mrna_len st)" by (simp add: ids(2))
  also have "\<dots> = length (first_occ (map snd (mrnas (file_lines src))))"
    by (metis keys length_map)
  also have "\<dots> = card (set (first_occ (map snd (mrnas (file_lines src)))))"
    using distinct_card [OF distinct_first_occ, of "map snd (mrnas (file_lines src))"] by simp
  finally have n: "length ids = card (snd ` set (mrnas (file_lines src)))" by simp
  have "\<forall>i\<in>set ids. \<exists>pre line rest. file_lines src = pre @ line # rest \<and>
                has_id i line \<and> (\<forall>l\<in>set rest. \<not> has_id i l) \<and>
                the (map_of (mrna_info st) i) = line @ concat (cds_lines rest i)"
  proof
    fix i assume "i \<in> set ids"
    with ids(3) have "i \<in> fst ` set (mrna_info st)"
      by (simp add: map_of_eq_None_iff)
    with inv have "i \<in> fst ` set (mrnas (file_lines src))" by (simp add: scan_inv_def)
    from buffer_of_registered [OF st this] obtain pre line rest g where
      "file_lines src = pre @ line # rest" "mrna_rec line = Some (i, g)"
      "\<forall>l\<in>set rest. \<not> has_id i l"
      "map_of (mrna_info st) i = Some (line @ concat (cds_lines rest i))"
      by blast
    moreover from this(2) have "has_id i line" by (auto simp: has_id_iff)
    ultimately show "\<exists>pre line rest. file_lines src = pre @ line # rest \<and>
                has_id i line \<and> (\<forall>l\<in>set rest. \<not> has_id i l) \<and>
                the (map_of (mrna_info st) i) = line @ concat (cds_lines rest i)"
      by (metis option.sel)
  qed
  then have blocks: "list_all2 (\<lambda>i b. \<exists>pre line rest. file_lines src = pre @ line # rest \<and>
                has_id i line \<and> (\<forall>l\<in>set rest. \<not> has_id i l) \<and>
                b = line @ concat (cds_lines rest i))
             ids (map (\<lambda>i. the (map_of (mrna_info st) i)) ids)"
    by (simp add: list_all2_map2 list_all2_same)
  have len: "length (fst (write_blocks (mrna_info st) ids)) =
      card (snd ` set (mrnas (file_lines src)))"
    by (simp add: wb n)
  from blocks have blocks': "list_all2 (\<lambda>i b. \<exists>pre line rest. file_lines src = pre @ line # rest \<and>
                has_id i line \<and> (\<forall>l\<in>set rest. \<not> has_id i l) \<and>
                b = line @ concat (cds_lines rest i))
             ids (fst (write_blocks (mrna_info st) ids))"
    by (simp add: wb)
  from st ids(1) out len keys ids(2) blocks' show ?thesis
    by blast
qed

theorem one_block_per_gene_witness:
  "fst (main ex_self (ex_world (ex_m1 @ ex_c1 @ ex_m2 @ ex_m3))) = Completed \<and>
   map_of (files (snd (main ex_self (ex_world (ex_m1 @ ex_c1 @ ex_m2 @ ex_m3))))) (outgff ex_self) =
     Some (concat [ex_m1 @ ex_c1, ex_m3]) \<and>
   card (snd ` set (mrnas (file_lines (ex_m1 @ ex_c1 @ ex_m2 @ ex_m3)))) = 2"
proof -
  have a: "fst (main ex_self (ex_world (ex_m1 @ ex_c1 @ ex_m2 @ ex_m3))) = Completed"
    by code_simp
  have b: "map_of (files (ex_world (ex_m1 @ ex_c1 @ ex_m2 @ ex_m3))) (gff ex_self) =
             Some (ex_m1 @ ex_c1 @ ex_m2 @ ex_m3)"
    by code_simp
  have c: "gff ex_self \<noteq> outgff ex_self"
    by code_simp
  have d: "map_of (files (snd (main ex_self (ex_world (ex_m1 @ ex_c1 @ ex_m2 @ ex_m3))))) (outgff ex_self) =
     Some (concat [ex_m1 @ ex_c1, ex_m3])"
    by code_simp
  have e: "readgff_loop init_state (file_lines (ex_m1 @ ex_c1 @ ex_m2 @ ex_m3)) =
     Inr \<lparr>gene_mrna_len = [(''g1'', [(''t1'', 300), (''t2'', 0)]), (''g2'', [(''t3'', 0)])],
          mrna_info = [(''t1'', ex_m1 @ ex_c1), (''t2'', ex_m2), (''t3'', ex_m3)],
          rna_proid = [(''t1'', ''t1'')],
          mrna_gene = [(''t1'', ''g1''), (''t2'', ''g1''), (''t3'', ''g2'')], stderr = []\<rparr>"
    by code_simp
  have f: "getmax [(''g1'', [(''t1'', 300), (''t2'', 0)]), (''g2'', [(''t3'', 0)])] = Inr [''t1'', ''t3'']"
    by code_simp
  have g: "write_blocks [(''t1'', ex_m1 @ ex_c1), (''t2'', ex_m2), (''t3'', ex_m3)] [''t1'', ''t3''] =
      ([ex_m1 @ ex_c1, ex_m3], [])"
    by code_simp
  from one_block_per_gene [OF a b c] obtain st ids where
    "readgff_loop init_state (file_lines (ex_m1 @ ex_c1 @ ex_m2 @ ex_m3)) = Inr st"
    "getmax (gene_mrna_len st) = Inr ids"
    "length (fst (write_blocks (mrna_info st) ids)) =
       card (snd ` set (mrnas (file_lines (ex_m1 @ ex_c1 @ ex_m2 @ ex_m3))))"
    by blast
  with e f g have "card (snd ` set (mrnas (file_lines (ex_m1 @ ex_c1 @ ex_m2 @ ex_m3)))) = 2"
    by (simp del: getmax.simps write_blocks.simps)
  with a d show ?thesis by blast
qed

text \<open>
  C5 as stated fails on an input that ends the run with an exception: one gene is
  registered and nothing is written.
\<close>

theorem one_block_per_gene_counterexample:
  "main ex_self (ex_world (ex_m1 @ ex_bad_cds)) =
     (Uncaught ValueError,
      \<lparr>files = [(''in.gff'', ex_m1 @ ex_bad_cds), (''out.gff'', [])], readonly = [], err = []\<rparr>) \<and>
   mrnas (file_lines (ex_m1 @ ex_bad_cds)) = [(''t1'', ''g1'')]"
  by code_simp




end
